theory Spec2Isabelle
  imports Main "HOL-Library.Word" "HOL-Library.AList"
begin

section \<open>The configuration long-poll watch center (config/watcher.go)\<close>

subsection \<open>Messages\<close>

text \<open>
  The response codes of \<open>apimodel\<close> that watcher.go uses. The enumeration itself is
  declared in another package; only the four names matter here.
\<close>

datatype Code =
    Code_ExecuteSuccess
  | Code_DataNoChange
  | Code_BadRequest
  | Code_InvalidWatchConfigFileFormat

text \<open>
  \<open>apiconfig.ClientConfigFileInfo\<close>. Its fields are protobuf wrappers read through
  nil-safe getters (\<open>GetNamespace().GetValue()\<close>), so an unset wrapper reads as the zero
  value; the record holds the values the getters return. The version is a \<open>uint64\<close>.
\<close>

record ClientConfigFileInfo =
  GetNamespace :: string
  GetGroup :: string
  GetFileName :: string
  GetVersion :: "64 word"
  GetMd5 :: string
  GetName :: string

text \<open>
  \<open>model.SimpleConfigFileRelease\<close>, with the fields watcher.go reads: the identity of
  the file, the version, the checksum and the display name of the release.
\<close>

record SimpleConfigFileRelease =
  Namespace :: string
  Group :: string
  FileName :: string
  Version :: "64 word"
  Md5 :: string
  Name :: string

text \<open>
  The info text of a response. The constructors of \<open>common/api/v1\<close> fill it from a
  table indexed by the code; the table belongs to that package, and \<open>CodeInfo c\<close> stands
  for its entry at \<open>c\<close>.
\<close>

datatype Info = NoInfo | CodeInfo Code | InfoText string

record ConfigClientResponse =
  Code :: Code
  Info :: Info
  ConfigFile :: "ClientConfigFileInfo option"

definition notModifiedResponse :: ConfigClientResponse where
  "notModifiedResponse = \<lparr>Code = Code_DataNoChange, Info = NoInfo, ConfigFile = None\<rparr>"

text \<open>
  Modelled from the spec: the three response constructors of \<open>common/api/v1\<close> are
  missing from the sources. The spec names the terminal responses: "file-changed(identity,
  version, checksum, displayName)", "no-change" and "invalid-request(reason)", each a
  structured response holding a code and, for file-changed, the descriptor of the file.
\<close>

definition NewConfigClientResponse :: "Code \<Rightarrow> ClientConfigFileInfo \<Rightarrow> ConfigClientResponse" where
  "NewConfigClientResponse code configFile =
     \<lparr>Code = code, Info = CodeInfo code, ConfigFile = Some configFile\<rparr>"

definition NewConfigClientResponse0 :: "Code \<Rightarrow> ConfigClientResponse" where
  "NewConfigClientResponse0 code = \<lparr>Code = code, Info = CodeInfo code, ConfigFile = None\<rparr>"

definition NewConfigClientResponseWithInfo :: "Code \<Rightarrow> string \<Rightarrow> ConfigClientResponse" where
  "NewConfigClientResponseWithInfo code msg =
     \<lparr>Code = code, Info = InfoText msg, ConfigFile = None\<rparr>"

subsection \<open>File identities\<close>

text \<open>
  Modelled from the spec: \<open>utils.GenFileId\<close>, \<open>model.BuildKeyForClientConfigFileInfo\<close>
  and \<open>SimpleConfigFileRelease.ActiveKey\<close> are missing from the sources. The spec:
  "Composite key: namespace + group + filename, concatenated deterministically into a
  single canonical string; used as the index key in both directions." The three functions
  build that one string, from three strings, from a file descriptor and from a release.
\<close>

definition GenFileId :: "string \<Rightarrow> string \<Rightarrow> string \<Rightarrow> string" where
  "GenFileId ns grp file = ns @ ''+'' @ grp @ ''+'' @ file"

definition BuildKeyForClientConfigFileInfo :: "ClientConfigFileInfo \<Rightarrow> string" where
  "BuildKeyForClientConfigFileInfo info =
     GenFileId (GetNamespace info) (GetGroup info) (GetFileName info)"

definition ActiveKey :: "SimpleConfigFileRelease \<Rightarrow> string" where
  "ActiveKey r = GenFileId (Namespace r) (Group r) (FileName r)"

text \<open>
  Modelled from the spec: \<open>SimpleConfigFileRelease.ToSpecNotifyClientRequest\<close> is
  missing from the sources. The spec: the publish event "carries the republished file's
  identity, new version number, content checksum, and display name", and the dispatcher
  builds from it one payload "describing the new version".
\<close>

definition ToSpecNotifyClientRequest :: "SimpleConfigFileRelease \<Rightarrow> ClientConfigFileInfo" where
  "ToSpecNotifyClientRequest r =
     \<lparr>GetNamespace = Namespace r, GetGroup = Group r, GetFileName = FileName r,
      GetVersion = Version r, GetMd5 = Md5 r, GetName = Name r\<rparr>"

subsection \<open>The concurrent containers\<close>

text \<open>
  Modelled from the spec: \<open>utils.SyncMap\<close> and \<open>utils.SyncSet\<close> are missing from the
  sources. The spec: an associative container "safe for concurrent read/insert/delete",
  with "copy-before-iterate snapshots" for a pass that walks it. A map is an association
  list and a set is a list; the order of a list is the order in which \<open>Range\<close> visits it,
  which Go leaves open, so a property proved for every list holds for every order.
\<close>

type_synonym 'v SyncMap = "(string \<times> 'v) list"
type_synonym SyncSet = "string list"

definition SyncMap_Load :: "'v SyncMap \<Rightarrow> string \<Rightarrow> 'v option" where
  "SyncMap_Load m k = map_of m k"

definition SyncMap_Store :: "'v SyncMap \<Rightarrow> string \<Rightarrow> 'v \<Rightarrow> 'v SyncMap" where
  "SyncMap_Store m k v = AList.update k v m"

text \<open>\<open>Delete\<close> returns the map without the key, and the old value when there was one.\<close>

definition SyncMap_Delete :: "'v SyncMap \<Rightarrow> string \<Rightarrow> 'v SyncMap \<times> 'v option" where
  "SyncMap_Delete m k = (AList.delete k m, map_of m k)"

text \<open>\<open>ComputeIfAbsent\<close> returns the map, and the value now stored under the key.\<close>

definition SyncMap_ComputeIfAbsent ::
    "'v SyncMap \<Rightarrow> string \<Rightarrow> (string \<Rightarrow> 'v) \<Rightarrow> 'v SyncMap \<times> 'v" where
  "SyncMap_ComputeIfAbsent m k f =
     (case map_of m k of
        Some v \<Rightarrow> (m, v)
      | None \<Rightarrow> (m @ [(k, f k)], f k))"

definition SyncMap_Len :: "'v SyncMap \<Rightarrow> nat" where
  "SyncMap_Len m = length m"

definition SyncSet_Add :: "SyncSet \<Rightarrow> string \<Rightarrow> SyncSet" where
  "SyncSet_Add s k = (if k \<in> set s then s else s @ [k])"

definition SyncSet_Remove :: "SyncSet \<Rightarrow> string \<Rightarrow> SyncSet" where
  "SyncSet_Remove s k = removeAll k s"

subsection \<open>LongPollWatchContext\<close>

text \<open>
  The delivery slot \<open>finishChan\<close>. What the file does with the channel is one send and
  one close, both inside \<open>Reply\<close>; the channel is made by the factory of the caller.
  The record keeps the values sent, in order, and whether the channel is closed. Waiting
  for a receiver is not part of the model.
\<close>

record Chan =
  sent :: "ConfigClientResponse list"
  closed :: bool

definition chan_send :: "Chan \<Rightarrow> ConfigClientResponse \<Rightarrow> Chan" where
  "chan_send ch rsp = ch\<lparr>sent := sent ch @ [rsp]\<rparr>"

definition chan_close :: "Chan \<Rightarrow> Chan" where
  "chan_close ch = ch\<lparr>closed := True\<rparr>"

text \<open>
  \<open>once\<close> is the state of the \<open>sync.Once\<close>: whether it has fired. \<open>finishTime\<close> is a
  point in time, as a number. \<open>watchConfigFiles\<close> is a Go map from key to descriptor.
\<close>

record LongPollWatchContext =
  clientId :: string
  once :: bool
  finishTime :: int
  finishChan :: Chan
  watchConfigFiles :: "(string \<times> ClientConfigFileInfo) list"

definition IsOnce :: "LongPollWatchContext \<Rightarrow> bool" where
  "IsOnce c = True"

definition ShouldExpire :: "LongPollWatchContext \<Rightarrow> int \<Rightarrow> bool" where
  "ShouldExpire c now = True"

definition ClientID :: "LongPollWatchContext \<Rightarrow> string" where
  "ClientID c = clientId c"

definition ShouldNotify :: "LongPollWatchContext \<Rightarrow> SimpleConfigFileRelease \<Rightarrow> bool" where
  "ShouldNotify c event =
     (let key = ActiveKey event in
      case map_of (watchConfigFiles c) key of
        None \<Rightarrow> False
      | Some watchFile \<Rightarrow> GetVersion watchFile < Version event)"

definition ListWatchFiles :: "LongPollWatchContext \<Rightarrow> ClientConfigFileInfo list" where
  "ListWatchFiles c = map snd (watchConfigFiles c)"

definition AppendInterest :: "LongPollWatchContext \<Rightarrow> ClientConfigFileInfo \<Rightarrow> LongPollWatchContext" where
  "AppendInterest c item =
     (let key = BuildKeyForClientConfigFileInfo item in
      c\<lparr>watchConfigFiles := AList.update key item (watchConfigFiles c)\<rparr>)"

definition RemoveInterest :: "LongPollWatchContext \<Rightarrow> ClientConfigFileInfo \<Rightarrow> LongPollWatchContext" where
  "RemoveInterest c item =
     (let key = BuildKeyForClientConfigFileInfo item in
      c\<lparr>watchConfigFiles := AList.delete key (watchConfigFiles c)\<rparr>)"

definition Reply :: "LongPollWatchContext \<Rightarrow> ConfigClientResponse \<Rightarrow> LongPollWatchContext" where
  "Reply c rsp =
     (if once c then c
      else c\<lparr>once := True, finishChan := chan_close (chan_send (finishChan c) rsp)\<rparr>)"

subsection \<open>watchCenter\<close>

text \<open>
  A \<open>WatchContext\<close> is a pointer: the transport that waits on the delivery slot keeps
  the context after the center has dropped it from its index. So the contexts live in a
  store of objects, \<open>objects\<close>, and the client index \<open>clients\<close> maps a client identity
  to the address of its context; \<open>fresh\<close> is the next unused address. \<open>watchers\<close> maps
  a file identity to the set of client identities waiting for it, \<open>fileCache\<close> is the
  lookup of the active release of a file in the cache. \<open>closeCalls\<close> records the contexts
  whose \<open>Close\<close> hook has run (the hook of \<open>LongPollWatchContext\<close> does nothing else).
  The lock, the subscription and the cancel function play no part in what follows.
\<close>

type_synonym addr = nat

record watchCenter =
  clients :: "addr SyncMap"
  watchers :: "SyncSet SyncMap"
  fileCache :: "string \<Rightarrow> string \<Rightarrow> string \<Rightarrow> SimpleConfigFileRelease option"
  objects :: "addr \<Rightarrow> LongPollWatchContext"
  fresh :: addr
  closeCalls :: "addr list"

definition zeroContext :: LongPollWatchContext where
  "zeroContext = \<lparr>clientId = [], once = False, finishTime = 0,
     finishChan = \<lparr>sent = [], closed = False\<rparr>, watchConfigFiles = []\<rparr>"

text \<open>
  The center that \<open>NewWatchCenter\<close> returns when the subscription to the event hub
  succeeds: both indices empty, no object allocated. (When the subscription fails the
  constructor returns the error and no center.) The unallocated addresses of the store
  hold the zero value of the struct.
\<close>

definition NewWatchCenter ::
    "(string \<Rightarrow> string \<Rightarrow> string \<Rightarrow> SimpleConfigFileRelease option) \<Rightarrow> watchCenter" where
  "NewWatchCenter cache =
     \<lparr>clients = [], watchers = [], fileCache = cache, objects = (\<lambda>_. zeroContext),
      fresh = 0, closeCalls = []\<rparr>"

text \<open>The body of the loop of \<open>checkQuickResponseClient\<close> over the files of the context.\<close>

fun checkQuickResponseClient_files ::
    "watchCenter \<Rightarrow> LongPollWatchContext \<Rightarrow> ClientConfigFileInfo list \<Rightarrow> ConfigClientResponse option" where
  "checkQuickResponseClient_files wc watchCtx [] = None"
| "checkQuickResponseClient_files wc watchCtx (configFile # rest) =
     (let namespace = GetNamespace configFile;
          grp = GetGroup configFile;
          fileName = GetFileName configFile
      in if namespace = [] \<or> grp = [] \<or> fileName = []
         then Some (NewConfigClientResponseWithInfo Code_BadRequest
                      ''namespace & group & fileName can not be empty'')
         else (case fileCache wc namespace grp fileName of
                 None \<Rightarrow> checkQuickResponseClient_files wc watchCtx rest
               | Some release \<Rightarrow>
                   if ShouldNotify watchCtx release
                   then Some (NewConfigClientResponse Code_ExecuteSuccess
                          \<lparr>GetNamespace = namespace, GetGroup = grp, GetFileName = fileName,
                           GetVersion = Version release, GetMd5 = Md5 release,
                           GetName = Name release\<rparr>)
                   else checkQuickResponseClient_files wc watchCtx rest))"

definition checkQuickResponseClient ::
    "watchCenter \<Rightarrow> LongPollWatchContext \<Rightarrow> ConfigClientResponse option" where
  "checkQuickResponseClient wc watchCtx =
     (let watchFiles = ListWatchFiles watchCtx
      in if length watchFiles = 0
         then Some (NewConfigClientResponse0 Code_InvalidWatchConfigFileFormat)
         else checkQuickResponseClient_files wc watchCtx watchFiles)"

definition GetWatchContext :: "watchCenter \<Rightarrow> string \<Rightarrow> addr option" where
  "GetWatchContext wc cid = SyncMap_Load (clients wc) cid"

text \<open>One round of the loop of \<open>AddWatcher\<close>, for the context at address \<open>a\<close>.\<close>

definition AddWatcher_file :: "string \<Rightarrow> addr \<Rightarrow> ClientConfigFileInfo \<Rightarrow> watchCenter \<Rightarrow> watchCenter" where
  "AddWatcher_file cid a file wc =
     (let fileKey = GenFileId (GetNamespace file) (GetGroup file) (GetFileName file);
          objs = (objects wc)(a := AppendInterest (objects wc a) file);
          (ws, clientIds) = SyncMap_ComputeIfAbsent (watchers wc) fileKey (\<lambda>k. [])
      in wc\<lparr>objects := objs, watchers := SyncMap_Store ws fileKey (SyncSet_Add clientIds cid)\<rparr>)"

text \<open>
  \<open>AddWatcher\<close> returns the address of the context of the client: the one in the index,
  or a new object that the factory fills when the client is not in the index.
\<close>

definition AddWatcher ::
    "string \<Rightarrow> ClientConfigFileInfo list \<Rightarrow> (string \<Rightarrow> LongPollWatchContext) \<Rightarrow> watchCenter
      \<Rightarrow> addr \<times> watchCenter" where
  "AddWatcher cid watchFiles factory wc =
     (let (cs, a) = SyncMap_ComputeIfAbsent (clients wc) cid (\<lambda>k. fresh wc);
          wc1 = (if SyncMap_Load (clients wc) cid = None
                 then wc\<lparr>clients := cs, objects := (objects wc)(a := factory cid),
                          fresh := Suc (fresh wc)\<rparr>
                 else wc)
      in (a, fold (AddWatcher_file cid a) watchFiles wc1))"

text \<open>
  One round of the loop that \<open>RemoveAllWatcher\<close> and \<open>RemoveWatcher\<close> share: the client
  leaves the bucket of the file, when the file has a bucket.
\<close>

definition RemoveWatcher_file :: "string \<Rightarrow> ClientConfigFileInfo \<Rightarrow> watchCenter \<Rightarrow> watchCenter" where
  "RemoveWatcher_file cid file wc =
     (let watchFileId = GenFileId (GetNamespace file) (GetGroup file) (GetFileName file)
      in case SyncMap_Load (watchers wc) watchFileId of
           None \<Rightarrow> wc
         | Some ws \<Rightarrow> wc\<lparr>watchers := SyncMap_Store (watchers wc) watchFileId (SyncSet_Remove ws cid)\<rparr>)"

definition RemoveAllWatcher :: "string \<Rightarrow> watchCenter \<Rightarrow> watchCenter" where
  "RemoveAllWatcher cid wc =
     (case SyncMap_Delete (clients wc) cid of
        (cs, None) \<Rightarrow> wc
      | (cs, Some oldVal) \<Rightarrow>
          fold (RemoveWatcher_file cid) (ListWatchFiles (objects wc oldVal))
            (wc\<lparr>clients := cs, closeCalls := closeCalls wc @ [oldVal]\<rparr>))"

definition RemoveWatcher :: "string \<Rightarrow> ClientConfigFileInfo list \<Rightarrow> watchCenter \<Rightarrow> watchCenter" where
  "RemoveWatcher cid files wc =
     (let wc1 = (case SyncMap_Delete (clients wc) cid of
                   (cs, None) \<Rightarrow> wc
                 | (cs, Some oldVal) \<Rightarrow> wc\<lparr>clients := cs, closeCalls := closeCalls wc @ [oldVal]\<rparr>)
      in if length files = 0 then wc1
         else fold (RemoveWatcher_file cid) files wc1)"

text \<open>
  The function that \<open>notifyToWatchers\<close> runs for each client identity of the bucket. The
  pass walks a snapshot of the bucket; \<open>clientIds.Remove\<close> acts on the bucket itself,
  which is the set stored under \<open>watchFileId\<close>.
\<close>

definition notifyToWatchers_client ::
    "SimpleConfigFileRelease \<Rightarrow> string \<Rightarrow> ConfigClientResponse \<Rightarrow> string \<Rightarrow> watchCenter \<Rightarrow> watchCenter" where
  "notifyToWatchers_client publishConfigFile watchFileId response cid wc =
     (case SyncMap_Load (clients wc) cid of
        None \<Rightarrow>
          (case SyncMap_Load (watchers wc) watchFileId of
             None \<Rightarrow> wc
           | Some clientIds \<Rightarrow>
               wc\<lparr>watchers := SyncMap_Store (watchers wc) watchFileId (SyncSet_Remove clientIds cid)\<rparr>)
      | Some watchCtx \<Rightarrow>
          (let wc1 = (if ShouldNotify (objects wc watchCtx) publishConfigFile
                      then wc\<lparr>objects := (objects wc)(watchCtx := Reply (objects wc watchCtx) response)\<rparr>
                      else wc)
           in if IsOnce (objects wc1 watchCtx)
              then RemoveAllWatcher (ClientID (objects wc1 watchCtx))
                     (wc1\<lparr>clients := fst (SyncMap_Delete (clients wc1) cid)\<rparr>)
              else wc1))"

definition notifyToWatchers :: "SimpleConfigFileRelease \<Rightarrow> watchCenter \<Rightarrow> watchCenter" where
  "notifyToWatchers publishConfigFile wc =
     (let watchFileId = GenFileId (Namespace publishConfigFile) (Group publishConfigFile)
                          (FileName publishConfigFile)
      in case SyncMap_Load (watchers wc) watchFileId of
           None \<Rightarrow> wc
         | Some clientIds \<Rightarrow>
             (let changeNotifyRequest = ToSpecNotifyClientRequest publishConfigFile;
                  response = NewConfigClientResponse Code_ExecuteSuccess changeNotifyRequest
              in fold (notifyToWatchers_client publishConfigFile watchFileId response) clientIds wc))"

text \<open>
  The expiry worker. What one tick does to the center is \<open>handleTimeoutTick\<close>; the
  worker is the loop over what its \<open>select\<close> receives, a tick with the time read at that
  tick or the cancellation, and it returns at the cancellation. The function gives the
  center after the worker has taken the events of the list: where the list ends without a
  cancellation the worker has not returned, it waits in its \<open>select\<close>.
\<close>

definition handleTimeout_client :: "addr \<Rightarrow> watchCenter \<Rightarrow> watchCenter" where
  "handleTimeout_client watchCtx wc =
     (let wc1 = wc\<lparr>objects := (objects wc)(watchCtx := Reply (objects wc watchCtx) notModifiedResponse)\<rparr>
      in RemoveAllWatcher (ClientID (objects wc1 watchCtx)) wc1)"

definition handleTimeoutTick :: "int \<Rightarrow> watchCenter \<Rightarrow> watchCenter" where
  "handleTimeoutTick tNow wc =
     (if SyncMap_Len (clients wc) = 0 then wc
      else (let waitRemove =
                  map snd (filter (\<lambda>(client, watchCtx). ShouldExpire (objects wc watchCtx) tNow)
                             (clients wc))
            in fold handleTimeout_client waitRemove wc))"

datatype worker_event = Done | Tick int

fun startHandleTimeoutRequestWorker :: "worker_event list \<Rightarrow> watchCenter \<Rightarrow> watchCenter" where
  "startHandleTimeoutRequestWorker [] wc = wc"
| "startHandleTimeoutRequestWorker (Done # evs) wc = wc"
| "startHandleTimeoutRequestWorker (Tick tNow # evs) wc =
     startHandleTimeoutRequestWorker evs (handleTimeoutTick tNow wc)"

subsection \<open>Well-formed registrations and a coherent cache\<close>

text \<open>
  The interest set of a context is a Go map filled by \<open>AppendInterest\<close>: its keys are
  distinct and every descriptor is stored under the key built from it.
\<close>

definition keyed :: "LongPollWatchContext \<Rightarrow> bool" where
  "keyed c \<longleftrightarrow> distinct (map fst (watchConfigFiles c))
     \<and> (\<forall>(k, f) \<in> set (watchConfigFiles c). k = BuildKeyForClientConfigFileInfo f)"

text \<open>
  The cache is looked up by identity: the release it returns for a file is a release of
  that file.
\<close>

definition cacheCoherent :: "watchCenter \<Rightarrow> ClientConfigFileInfo list \<Rightarrow> bool" where
  "cacheCoherent wc files \<longleftrightarrow>
     (\<forall>f \<in> set files. \<forall>r. fileCache wc (GetNamespace f) (GetGroup f) (GetFileName f) = Some r
        \<longrightarrow> Namespace r = GetNamespace f \<and> Group r = GetGroup f \<and> FileName r = GetFileName f)"

subsection \<open>The scenarios of the specification\<close>

text \<open>
  Files of group \<open>g1\<close> in namespace \<open>default\<close>, as in the scenarios of the specification:
  the descriptor a client sends, with the version it declares, and a release.
\<close>

definition watchFile :: "string \<Rightarrow> string \<Rightarrow> 64 word \<Rightarrow> ClientConfigFileInfo" where
  "watchFile ns name v =
     \<lparr>GetNamespace = ns, GetGroup = ''g1'', GetFileName = name, GetVersion = v,
      GetMd5 = [], GetName = []\<rparr>"

definition releaseOf :: "string \<Rightarrow> 64 word \<Rightarrow> SimpleConfigFileRelease" where
  "releaseOf name v =
     \<lparr>Namespace = ''default'', Group = ''g1'', FileName = name, Version = v,
      Md5 = ''d41d8cd9'', Name = ''release''\<rparr>"

text \<open>
  Modelled from the spec: the factory of the long-poll contexts is missing from the
  sources. The spec: a registration has an identity, an interest set, a delivery slot
  "resolved exactly once, ever" and a deadline; a new one has an empty interest set and an
  unresolved slot.
\<close>

definition longPollFactory :: "int \<Rightarrow> string \<Rightarrow> LongPollWatchContext" where
  "longPollFactory deadline cid =
     \<lparr>clientId = cid, once = False, finishTime = deadline,
      finishChan = \<lparr>sent = [], closed = False\<rparr>, watchConfigFiles = []\<rparr>"

text \<open>A cache whose only active release is version 4 of \<open>f1\<close>.\<close>

definition cacheF1 :: "string \<Rightarrow> string \<Rightarrow> string \<Rightarrow> SimpleConfigFileRelease option" where
  "cacheF1 ns grp name =
     (if ns = ''default'' \<and> grp = ''g1'' \<and> name = ''f1'' then Some (releaseOf ''f1'' 4)
      else None)"

text \<open>
  The center after client \<open>c1\<close> has registered for \<open>f1\<close>, declaring version 3, and for
  \<open>f2\<close>, declaring version 1.
\<close>

definition centerC1 :: watchCenter where
  "centerC1 =
     snd (AddWatcher ''c1'' [watchFile ''default'' ''f1'' 3, watchFile ''default'' ''f2'' 1]
            (longPollFactory 30000) (NewWatchCenter cacheF1))"

text \<open>The context of \<open>c1\<close> in that center.\<close>

definition contextC1 :: LongPollWatchContext where
  "contextC1 =
     \<lparr>clientId = ''c1'', once = False, finishTime = 30000,
      finishChan = \<lparr>sent = [], closed = False\<rparr>,
      watchConfigFiles =
        [(''default+g1+f1'', watchFile ''default'' ''f1'' 3),
         (''default+g1+f2'', watchFile ''default'' ''f2'' 1)]\<rparr>"

text \<open>
  A context that lists \<open>f1\<close>, declaring version 3, and then a descriptor with no
  namespace; and one that lists \<open>f2\<close> and then that descriptor.
\<close>

definition contextMalformed :: "string \<Rightarrow> 64 word \<Rightarrow> LongPollWatchContext" where
  "contextMalformed name v =
     AppendInterest (AppendInterest (longPollFactory 30000 ''c9'') (watchFile ''default'' name v))
       (watchFile [] ''f2'' 1)"

subsection \<open>The client index as a map of live registrations\<close>

text \<open>
  \<open>clients\<close> is a Go map, so its keys are distinct, and the context stored for a client
  is the one the factory made for that client: its \<open>ClientID\<close> is the key.
\<close>

definition indexed :: "watchCenter \<Rightarrow> bool" where
  "indexed wc \<longleftrightarrow> distinct (map fst (clients wc))
     \<and> (\<forall>(cid, a) \<in> set (clients wc). ClientID (objects wc a) = cid)"

text \<open>
  The two indices agree, as \<open>AddWatcher\<close> leaves them: the interest set of every live
  registration is keyed as \<open>AppendInterest\<close> keys it, and the client is in the bucket
  of every file of its interest set.
\<close>

definition consistent :: "watchCenter \<Rightarrow> bool" where
  "consistent wc \<longleftrightarrow> indexed wc
     \<and> (\<forall>(cid, a) \<in> set (clients wc).
           (\<forall>(k, f) \<in> set (watchConfigFiles (objects wc a)).
              k = BuildKeyForClientConfigFileInfo f
              \<and> (\<exists>ws. SyncMap_Load (watchers wc)
                        (GenFileId (GetNamespace f) (GetGroup f) (GetFileName f)) = Some ws
                      \<and> cid \<in> set ws)))"

text \<open>
  What every operation of the center keeps: the indices agree, and the context of every
  live registration is an object that has been allocated. A factory is as expected when
  the context it makes for a client carries the identity of the client and has an empty
  interest set.
\<close>

definition wellformed :: "watchCenter \<Rightarrow> bool" where
  "wellformed wc \<longleftrightarrow> consistent wc \<and> (\<forall>(cid, a) \<in> set (clients wc). a < fresh wc)"

definition goodFactory :: "(string \<Rightarrow> LongPollWatchContext) \<Rightarrow> bool" where
  "goodFactory factory \<longleftrightarrow>
     (\<forall>cid. ClientID (factory cid) = cid \<and> watchConfigFiles (factory cid) = [])"

section \<open>Properties\<close>

subsection \<open>The single-fire reply\<close>

lemma Reply_Reply: "Reply (Reply c rsp) rsp' = Reply c rsp"
  by (simp add: Reply_def)

lemma Reply_clientId: "clientId (Reply c rsp) = clientId c"
  by (simp add: Reply_def)

lemma Reply_watchConfigFiles: "watchConfigFiles (Reply c rsp) = watchConfigFiles c"
  by (simp add: Reply_def)

lemma ListWatchFiles_Reply: "ListWatchFiles (Reply c rsp) = ListWatchFiles c"
  by (simp add: ListWatchFiles_def Reply_watchConfigFiles)

lemma ShouldNotify_Reply: "ShouldNotify (Reply c rsp) e = ShouldNotify c e"
  by (simp add: ShouldNotify_def Reply_watchConfigFiles)

lemma fold_Reply_fired: "once c \<Longrightarrow> fold (\<lambda>rsp x. Reply x rsp) rsps c = c"
  by (induction rsps) (simp_all add: Reply_def)

text \<open>
  Claim C1. For every context, \<open>Reply\<close> changes the delivery slot at most once. A call
  on a context whose latch has not fired appends the response to the channel and closes
  it; a call on a context whose latch has fired changes nothing. After one call the latch
  has fired, so whatever responses are replied afterwards, and however many, the context
  stays as the first call left it; in all, a run of calls adds at most one value to the
  channel.
\<close>

theorem Reply_single_fire:
  "(if once c then Reply c rsp = c
    else Reply c rsp =
           c\<lparr>once := True,
              finishChan := \<lparr>sent = sent (finishChan c) @ [rsp], closed = True\<rparr>\<rparr>)
   \<and> once (Reply c rsp)
   \<and> fold (\<lambda>r x. Reply x r) rsps (Reply c rsp) = Reply c rsp
   \<and> length (sent (finishChan (fold (\<lambda>r x. Reply x r) (rsp # rsps) c)))
        \<le> Suc (length (sent (finishChan c)))"
proof -
  have fired: "once (Reply c rsp)"
    by (simp add: Reply_def)
  have later: "fold (\<lambda>r x. Reply x r) rsps (Reply c rsp) = Reply c rsp"
    using fired by (rule fold_Reply_fired)
  have first: "if once c then Reply c rsp = c
    else Reply c rsp =
           c\<lparr>once := True,
              finishChan := \<lparr>sent = sent (finishChan c) @ [rsp], closed = True\<rparr>\<rparr>"
    by (simp add: Reply_def chan_send_def chan_close_def)
  have "length (sent (finishChan (Reply c rsp))) \<le> Suc (length (sent (finishChan c)))"
    by (simp add: Reply_def chan_send_def chan_close_def)
  with later have bound: "length (sent (finishChan (fold (\<lambda>r x. Reply x r) (rsp # rsps) c)))
        \<le> Suc (length (sent (finishChan c)))"
    by simp
  from first fired later bound show ?thesis by blast
qed

subsection \<open>The interest condition and the expiry condition\<close>

text \<open>
  Claim C5. \<open>ShouldNotify c e\<close> is true exactly when the interest set of \<open>c\<close> has an
  entry under the key of the file of \<open>e\<close> and the version declared in that entry is
  strictly less than the version of \<open>e\<close>. It is false exactly when there is no such entry
  or the declared version is equal to or greater than the version of \<open>e\<close>. Versions are
  compared as unsigned 64-bit numbers.
\<close>

theorem ShouldNotify_iff:
  "(ShouldNotify c e \<longleftrightarrow>
      (\<exists>watchFile. map_of (watchConfigFiles c) (ActiveKey e) = Some watchFile
          \<and> GetVersion watchFile < Version e))
   \<and> (\<not> ShouldNotify c e \<longleftrightarrow>
        (map_of (watchConfigFiles c) (ActiveKey e) = None
         \<or> (\<exists>watchFile. map_of (watchConfigFiles c) (ActiveKey e) = Some watchFile
               \<and> Version e \<le> GetVersion watchFile)))"
  by (auto simp: ShouldNotify_def split: option.splits)

text \<open>
  A \<open>LongPollWatchContext\<close> is single-shot (\<open>IsOnce\<close> is true) and \<open>ShouldExpire\<close>
  is true at every time, whatever the deadline \<open>finishTime\<close> holds; so the sweeper's
  selection of the expired registrations keeps every registration of the client index.
\<close>

lemma ShouldExpire_always:
  "IsOnce c \<and> ShouldExpire c now \<and> ShouldExpire (c\<lparr>finishTime := t\<rparr>) now
   \<and> filter (\<lambda>(client, watchCtx). ShouldExpire (objects wc watchCtx) now) (clients wc) = clients wc"
  by (simp add: IsOnce_def ShouldExpire_def)

subsection \<open>The scenarios, evaluated\<close>

lemmas scenario_defs =
  AddWatcher_def NewWatchCenter_def SyncMap_ComputeIfAbsent_def SyncMap_Load_def
  AddWatcher_file_def Let_def SyncMap_Store_def SyncSet_Add_def GenFileId_def watchFile_def
  longPollFactory_def AppendInterest_def BuildKeyForClientConfigFileInfo_def

lemma centerC1_clients: "clients centerC1 = [(''c1'', 0)]"
  by (simp add: centerC1_def scenario_defs)

lemma centerC1_watchers:
  "watchers centerC1 = [(''default+g1+f1'', [''c1'']), (''default+g1+f2'', [''c1''])]"
  by (simp add: centerC1_def scenario_defs)

lemma centerC1_objects: "objects centerC1 0 = contextC1"
  by (simp add: centerC1_def contextC1_def scenario_defs)

lemma centerC1_closeCalls: "closeCalls centerC1 = []"
  by (simp add: centerC1_def scenario_defs)

lemma centerC1_fileCache: "fileCache centerC1 = cacheF1"
  by (simp add: centerC1_def scenario_defs)

lemma contextC1_files:
  "ListWatchFiles contextC1 = [watchFile ''default'' ''f1'' 3, watchFile ''default'' ''f2'' 1]"
  by (simp add: contextC1_def ListWatchFiles_def)

lemma contextMalformed_files:
  "ListWatchFiles (contextMalformed name v) = [watchFile ''default'' name v, watchFile [] ''f2'' 1]"
  by (simp add: contextMalformed_def ListWatchFiles_def scenario_defs)

subsection \<open>Unregistering a client\<close>

lemma RemoveWatcher_file_fields:
  "clients (RemoveWatcher_file cid file wc) = clients wc"
  "objects (RemoveWatcher_file cid file wc) = objects wc"
  "closeCalls (RemoveWatcher_file cid file wc) = closeCalls wc"
  "fresh (RemoveWatcher_file cid file wc) = fresh wc"
  "fileCache (RemoveWatcher_file cid file wc) = fileCache wc"
  by (simp_all add: RemoveWatcher_file_def Let_def split: option.splits)

lemma RemoveWatcher_file_watchers:
  "map_of (watchers (RemoveWatcher_file cid file wc)) k =
     (if k = GenFileId (GetNamespace file) (GetGroup file) (GetFileName file)
      then map_option (removeAll cid) (map_of (watchers wc) k)
      else map_of (watchers wc) k)"
  by (simp add: RemoveWatcher_file_def Let_def SyncMap_Load_def SyncMap_Store_def
      SyncSet_Remove_def update_conv' split: option.splits)

lemma fold_RemoveWatcher_file_fields:
  "clients (fold (RemoveWatcher_file cid) files wc) = clients wc"
  "objects (fold (RemoveWatcher_file cid) files wc) = objects wc"
  "closeCalls (fold (RemoveWatcher_file cid) files wc) = closeCalls wc"
  "fresh (fold (RemoveWatcher_file cid) files wc) = fresh wc"
  "fileCache (fold (RemoveWatcher_file cid) files wc) = fileCache wc"
  by (induction files arbitrary: wc) (simp_all add: RemoveWatcher_file_fields)

lemma fold_RemoveWatcher_file_watchers:
  "map_of (watchers (fold (RemoveWatcher_file cid) files wc)) k =
     (if k \<in> (\<lambda>file. GenFileId (GetNamespace file) (GetGroup file) (GetFileName file)) ` set files
      then map_option (removeAll cid) (map_of (watchers wc) k)
      else map_of (watchers wc) k)"
proof (induction files arbitrary: wc)
  case Nil
  show ?case by simp
next
  case (Cons f files)
  show ?case
    by (simp add: Cons.IH RemoveWatcher_file_watchers option.map_comp comp_def)
qed

lemma delete_absent: "map_of m k = None \<Longrightarrow> AList.delete k m = m"
  by (simp add: map_of_eq_None_iff)

lemma RemoveAllWatcher_clients:
  "clients (RemoveAllWatcher cid wc) = AList.delete cid (clients wc)"
  by (simp add: RemoveAllWatcher_def SyncMap_Delete_def fold_RemoveWatcher_file_fields
      delete_absent split: option.splits)

lemma RemoveAllWatcher_objects: "objects (RemoveAllWatcher cid wc) = objects wc"
  by (simp add: RemoveAllWatcher_def SyncMap_Delete_def fold_RemoveWatcher_file_fields
      split: option.splits)

lemma RemoveAllWatcher_absent:
  "map_of (clients wc) cid = None \<Longrightarrow> RemoveAllWatcher cid wc = wc"
  by (simp add: RemoveAllWatcher_def SyncMap_Delete_def)

lemma RemoveAllWatcher_present_watchers:
  "map_of (clients wc) cid = Some a \<Longrightarrow>
   map_of (watchers (RemoveAllWatcher cid wc)) k =
     (if k \<in> (\<lambda>file. GenFileId (GetNamespace file) (GetGroup file) (GetFileName file))
                ` set (ListWatchFiles (objects wc a))
      then map_option (removeAll cid) (map_of (watchers wc) k)
      else map_of (watchers wc) k)"
  by (simp add: RemoveAllWatcher_def SyncMap_Delete_def fold_RemoveWatcher_file_watchers)

lemma RemoveAllWatcher_present_closeCalls:
  "map_of (clients wc) cid = Some a \<Longrightarrow>
   closeCalls (RemoveAllWatcher cid wc) = closeCalls wc @ [a]"
  by (simp add: RemoveAllWatcher_def SyncMap_Delete_def fold_RemoveWatcher_file_fields)

lemma RemoveAllWatcher_not_live:
  "map_of (clients (RemoveAllWatcher cid wc)) cid = None"
  by (simp add: RemoveAllWatcher_clients delete_conv')

text \<open>
  Claim C6. After \<open>RemoveAllWatcher cid\<close> the client is not in the client index, and a
  second call changes nothing. When the client was not in the index the call changes
  nothing at all. When it was, with context \<open>a\<close>, the \<open>Close\<close> hook of \<open>a\<close> has run
  (once more than before), and for every file in the interest set that \<open>a\<close> had at the call
  the bucket of that file, if there is one, does not hold the client.
\<close>

theorem RemoveAllWatcher_unregisters:
  "SyncMap_Load (clients (RemoveAllWatcher cid wc)) cid = None
   \<and> RemoveAllWatcher cid (RemoveAllWatcher cid wc) = RemoveAllWatcher cid wc
   \<and> (case SyncMap_Load (clients wc) cid of
        None \<Rightarrow> RemoveAllWatcher cid wc = wc
      | Some a \<Rightarrow>
          closeCalls (RemoveAllWatcher cid wc) = closeCalls wc @ [a]
          \<and> (\<forall>file \<in> set (ListWatchFiles (objects wc a)).
                \<forall>ws. SyncMap_Load (watchers (RemoveAllWatcher cid wc))
                        (GenFileId (GetNamespace file) (GetGroup file) (GetFileName file)) = Some ws
                      \<longrightarrow> cid \<notin> set ws))"
proof -
  have gone: "SyncMap_Load (clients (RemoveAllWatcher cid wc)) cid = None"
    by (simp add: SyncMap_Load_def RemoveAllWatcher_not_live)
  have again: "RemoveAllWatcher cid (RemoveAllWatcher cid wc) = RemoveAllWatcher cid wc"
    by (rule RemoveAllWatcher_absent) (rule RemoveAllWatcher_not_live)
  have rest: "case SyncMap_Load (clients wc) cid of
        None \<Rightarrow> RemoveAllWatcher cid wc = wc
      | Some a \<Rightarrow>
          closeCalls (RemoveAllWatcher cid wc) = closeCalls wc @ [a]
          \<and> (\<forall>file \<in> set (ListWatchFiles (objects wc a)).
                \<forall>ws. SyncMap_Load (watchers (RemoveAllWatcher cid wc))
                        (GenFileId (GetNamespace file) (GetGroup file) (GetFileName file)) = Some ws
                      \<longrightarrow> cid \<notin> set ws)"
  proof (cases "map_of (clients wc) cid")
    case None
    then show ?thesis
      by (simp add: SyncMap_Load_def RemoveAllWatcher_absent)
  next
    case (Some a)
    have "\<forall>file \<in> set (ListWatchFiles (objects wc a)).
                \<forall>ws. map_of (watchers (RemoveAllWatcher cid wc))
                        (GenFileId (GetNamespace file) (GetGroup file) (GetFileName file)) = Some ws
                      \<longrightarrow> cid \<notin> set ws"
      by (auto simp: RemoveAllWatcher_present_watchers [OF Some])
    with Some show ?thesis
      by (simp add: SyncMap_Load_def RemoveAllWatcher_present_closeCalls)
  qed
  from gone again rest show ?thesis by blast
qed

theorem RemoveAllWatcher_unregisters_witness:
  "SyncMap_Load (clients centerC1) ''c1'' = Some 0
   \<and> ListWatchFiles (objects centerC1 0) = [watchFile ''default'' ''f1'' 3, watchFile ''default'' ''f2'' 1]
   \<and> SyncMap_Load (watchers centerC1) (GenFileId ''default'' ''g1'' ''f1'') = Some [''c1'']
   \<and> SyncMap_Load (watchers centerC1) (GenFileId ''default'' ''g1'' ''f2'') = Some [''c1'']
   \<and> SyncMap_Load (clients (RemoveAllWatcher ''c1'' centerC1)) ''c1'' = None
   \<and> closeCalls (RemoveAllWatcher ''c1'' centerC1) = [0]
   \<and> SyncMap_Load (watchers (RemoveAllWatcher ''c1'' centerC1)) (GenFileId ''default'' ''g1'' ''f1'') = Some []
   \<and> SyncMap_Load (watchers (RemoveAllWatcher ''c1'' centerC1)) (GenFileId ''default'' ''g1'' ''f2'') = Some []
   \<and> RemoveAllWatcher ''c1'' (RemoveAllWatcher ''c1'' centerC1) = RemoveAllWatcher ''c1'' centerC1"
  using RemoveAllWatcher_unregisters [of "''c1''" centerC1]
  by (simp add: SyncMap_Load_def centerC1_clients centerC1_watchers centerC1_objects
      centerC1_closeCalls contextC1_files RemoveAllWatcher_present_watchers [of centerC1 "''c1''" 0]
      GenFileId_def watchFile_def)

subsection \<open>The fast-path check\<close>

lemma files_append_malformed:
  "GetNamespace bad = [] \<or> GetGroup bad = [] \<or> GetFileName bad = [] \<Longrightarrow>
   checkQuickResponseClient_files wc c (pre @ bad # post) =
     (case checkQuickResponseClient_files wc c pre of
        Some r \<Rightarrow> Some r
      | None \<Rightarrow> Some (NewConfigClientResponseWithInfo Code_BadRequest
                      ''namespace & group & fileName can not be empty''))"
  by (induction pre) (auto simp: Let_def split: option.splits)

lemma files_no_hit:
  "\<forall>f \<in> set files. \<forall>r. fileCache wc (GetNamespace f) (GetGroup f) (GetFileName f) = Some r
        \<longrightarrow> \<not> ShouldNotify c r \<Longrightarrow>
   checkQuickResponseClient_files wc c files = None
   \<or> checkQuickResponseClient_files wc c files =
        Some (NewConfigClientResponseWithInfo Code_BadRequest
                ''namespace & group & fileName can not be empty'')"
  by (induction files) (auto simp: Let_def split: option.splits)

lemma files_cache_cong:
  "\<forall>ns g f. ns \<noteq> [] \<and> g \<noteq> [] \<and> f \<noteq> [] \<longrightarrow> cache ns g f = fileCache wc ns g f \<Longrightarrow>
   checkQuickResponseClient_files (wc\<lparr>fileCache := cache\<rparr>) c files =
   checkQuickResponseClient_files wc c files"
  by (induction files) (auto simp: Let_def split: option.splits)

text \<open>
  Claim C9, as stated, fails: a context that lists a descriptor with no namespace gets the
  success response of a file listed before it, not the invalid-request response. Here the
  context lists \<open>f1\<close>, declared at version 3 and cached at version 4, and then the
  malformed descriptor.
\<close>

theorem checkQuickResponseClient_malformed_counterexample:
  "ListWatchFiles (contextMalformed ''f1'' 3) =
       [watchFile ''default'' ''f1'' 3, watchFile [] ''f2'' 1]
   \<and> GetNamespace (watchFile [] ''f2'' 1) = []
   \<and> checkQuickResponseClient (NewWatchCenter cacheF1) (contextMalformed ''f1'' 3) =
       Some (NewConfigClientResponse Code_ExecuteSuccess
              \<lparr>GetNamespace = ''default'', GetGroup = ''g1'', GetFileName = ''f1'',
               GetVersion = 4, GetMd5 = ''d41d8cd9'', GetName = ''release''\<rparr>)
   \<and> Code (NewConfigClientResponse Code_ExecuteSuccess
              \<lparr>GetNamespace = ''default'', GetGroup = ''g1'', GetFileName = ''f1'',
               GetVersion = 4, GetMd5 = ''d41d8cd9'', GetName = ''release''\<rparr>) \<noteq> Code_BadRequest"
  by (simp add: checkQuickResponseClient_def contextMalformed_files Let_def)
     (simp add: watchFile_def NewWatchCenter_def cacheF1_def releaseOf_def ShouldNotify_def
        contextMalformed_def scenario_defs ActiveKey_def NewConfigClientResponse_def)

text \<open>
  Claim C9, amended. A context that lists no file gets the response
  \<open>InvalidWatchConfigFileFormat\<close>. When the list has a descriptor with an empty namespace,
  group or file name, the check returns what the files listed before that descriptor
  return if one of them returns a response, and the \<open>BadRequest\<close> response otherwise; so it
  never returns nil, and it returns \<open>BadRequest\<close> when no file listed before the descriptor
  has a cached release that the context should be notified of. The cache is not consulted
  for a malformed descriptor: two caches that agree on every identity with no empty part
  give the same result. The check only returns a response; it does not touch the index.
\<close>

theorem checkQuickResponseClient_invalid:
  "(ListWatchFiles c = [] \<longrightarrow>
      checkQuickResponseClient wc c =
        Some (NewConfigClientResponse0 Code_InvalidWatchConfigFileFormat))
   \<and> (ListWatchFiles c = pre @ bad # post
        \<and> (GetNamespace bad = [] \<or> GetGroup bad = [] \<or> GetFileName bad = []) \<longrightarrow>
        checkQuickResponseClient wc c =
          (case checkQuickResponseClient_files wc c pre of
             Some r \<Rightarrow> Some r
           | None \<Rightarrow> Some (NewConfigClientResponseWithInfo Code_BadRequest
                           ''namespace & group & fileName can not be empty''))
        \<and> checkQuickResponseClient wc c \<noteq> None
        \<and> ((\<forall>f \<in> set pre. \<forall>r.
                fileCache wc (GetNamespace f) (GetGroup f) (GetFileName f) = Some r
                \<longrightarrow> \<not> ShouldNotify c r) \<longrightarrow>
             checkQuickResponseClient wc c =
               Some (NewConfigClientResponseWithInfo Code_BadRequest
                       ''namespace & group & fileName can not be empty'')))
   \<and> ((\<forall>ns g f. ns \<noteq> [] \<and> g \<noteq> [] \<and> f \<noteq> [] \<longrightarrow> cache ns g f = fileCache wc ns g f) \<longrightarrow>
        checkQuickResponseClient (wc\<lparr>fileCache := cache\<rparr>) c = checkQuickResponseClient wc c)"
proof (intro conjI impI)
  assume "ListWatchFiles c = []"
  then show "checkQuickResponseClient wc c =
        Some (NewConfigClientResponse0 Code_InvalidWatchConfigFileFormat)"
    by (simp add: checkQuickResponseClient_def)
next
  assume a: "ListWatchFiles c = pre @ bad # post
        \<and> (GetNamespace bad = [] \<or> GetGroup bad = [] \<or> GetFileName bad = [])"
  then have bad: "GetNamespace bad = [] \<or> GetGroup bad = [] \<or> GetFileName bad = []" by simp
  from a show eq: "checkQuickResponseClient wc c =
          (case checkQuickResponseClient_files wc c pre of
             Some r \<Rightarrow> Some r
           | None \<Rightarrow> Some (NewConfigClientResponseWithInfo Code_BadRequest
                           ''namespace & group & fileName can not be empty''))"
    by (simp add: checkQuickResponseClient_def files_append_malformed [OF bad])
  then show "checkQuickResponseClient wc c \<noteq> None"
    by (simp split: option.splits)
  assume "\<forall>f \<in> set pre. \<forall>r.
                fileCache wc (GetNamespace f) (GetGroup f) (GetFileName f) = Some r
                \<longrightarrow> \<not> ShouldNotify c r"
  from files_no_hit [OF this] eq
  show "checkQuickResponseClient wc c =
               Some (NewConfigClientResponseWithInfo Code_BadRequest
                       ''namespace & group & fileName can not be empty'')"
    by auto
next
  assume "\<forall>ns g f. ns \<noteq> [] \<and> g \<noteq> [] \<and> f \<noteq> [] \<longrightarrow> cache ns g f = fileCache wc ns g f"
  then show "checkQuickResponseClient (wc\<lparr>fileCache := cache\<rparr>) c = checkQuickResponseClient wc c"
    by (simp add: checkQuickResponseClient_def Let_def files_cache_cong)
qed

theorem checkQuickResponseClient_invalid_witness:
  "ListWatchFiles (longPollFactory 30000 ''c9'') = []
   \<and> checkQuickResponseClient (NewWatchCenter cacheF1) (longPollFactory 30000 ''c9'') =
       Some (NewConfigClientResponse0 Code_InvalidWatchConfigFileFormat)
   \<and> ListWatchFiles (contextMalformed ''f2'' 1) =
       [watchFile ''default'' ''f2'' 1] @ watchFile [] ''f2'' 1 # []
   \<and> GetNamespace (watchFile [] ''f2'' 1) = []
   \<and> fileCache (NewWatchCenter cacheF1) ''default'' ''g1'' ''f2'' = None
   \<and> checkQuickResponseClient (NewWatchCenter cacheF1) (contextMalformed ''f2'' 1) =
       Some (NewConfigClientResponseWithInfo Code_BadRequest
               ''namespace & group & fileName can not be empty'')
   \<and> checkQuickResponseClient
        ((NewWatchCenter cacheF1)\<lparr>fileCache := (\<lambda>ns g f. if ns = [] then Some (releaseOf f 9)
                                                         else cacheF1 ns g f)\<rparr>)
        (contextMalformed ''f2'' 1) =
       checkQuickResponseClient (NewWatchCenter cacheF1) (contextMalformed ''f2'' 1)"
  using checkQuickResponseClient_invalid [where c = "longPollFactory 30000 ''c9''"
          and wc = "NewWatchCenter cacheF1" and pre = "[]" and bad = "watchFile [] ''f2'' 1"
          and post = "[]" and cache = cacheF1]
        checkQuickResponseClient_invalid [where c = "contextMalformed ''f2'' 1"
          and wc = "NewWatchCenter cacheF1" and pre = "[watchFile ''default'' ''f2'' 1]"
          and bad = "watchFile [] ''f2'' 1" and post = "[]"
          and cache = "\<lambda>ns g f. if ns = [] then Some (releaseOf f 9) else cacheF1 ns g f"]
  by (simp add: contextMalformed_files)
     (simp add: ListWatchFiles_def longPollFactory_def watchFile_def NewWatchCenter_def
        cacheF1_def)

lemma set_update_cases:
  "p \<in> set (AList.update k v al) \<Longrightarrow> p = (k, v) \<or> p \<in> set al"
  by (induction al) (auto split: if_splits)

lemma AppendInterest_keyed: "keyed c \<Longrightarrow> keyed (AppendInterest c item)"
  unfolding keyed_def AppendInterest_def Let_def
  by (auto simp: distinct_update dest!: set_update_cases)

lemma keyed_lookup:
  assumes "keyed c" and "f \<in> set (ListWatchFiles c)"
  shows "map_of (watchConfigFiles c) (BuildKeyForClientConfigFileInfo f) = Some f"
proof -
  from assms(2) obtain k where kf: "(k, f) \<in> set (watchConfigFiles c)"
    by (auto simp: ListWatchFiles_def)
  with assms(1) have "k = BuildKeyForClientConfigFileInfo f"
    by (auto simp: keyed_def)
  with kf assms(1) show ?thesis
    by (simp add: keyed_def)
qed

lemma keyed_ShouldNotify:
  assumes "keyed c" and "f \<in> set (ListWatchFiles c)"
    and "Namespace r = GetNamespace f" "Group r = GetGroup f" "FileName r = GetFileName f"
  shows "ShouldNotify c r \<longleftrightarrow> GetVersion f < Version r"
proof -
  have "ActiveKey r = BuildKeyForClientConfigFileInfo f"
    using assms(3-5) by (simp add: ActiveKey_def BuildKeyForClientConfigFileInfo_def)
  with keyed_lookup [OF assms(1,2)] show ?thesis
    by (simp add: ShouldNotify_def)
qed

lemma files_fast_path:
  assumes "keyed c" and "set files \<subseteq> set (ListWatchFiles c)"
    and "\<forall>f \<in> set files. GetNamespace f \<noteq> [] \<and> GetGroup f \<noteq> [] \<and> GetFileName f \<noteq> []"
    and "cacheCoherent wc files"
  shows "if \<exists>f \<in> set files. \<exists>r. fileCache wc (GetNamespace f) (GetGroup f) (GetFileName f) = Some r
               \<and> GetVersion f < Version r
         then \<exists>f \<in> set files. \<exists>r. fileCache wc (GetNamespace f) (GetGroup f) (GetFileName f) = Some r
               \<and> GetVersion f < Version r
               \<and> checkQuickResponseClient_files wc c files =
                   Some (NewConfigClientResponse Code_ExecuteSuccess
                     \<lparr>GetNamespace = Namespace r, GetGroup = Group r, GetFileName = FileName r,
                      GetVersion = Version r, GetMd5 = Md5 r, GetName = Name r\<rparr>)
         else checkQuickResponseClient_files wc c files = None"
  using assms(2-4)
proof (induction files)
  case Nil
  show ?case by simp
next
  case (Cons f files)
  have f_in: "f \<in> set (ListWatchFiles c)" using Cons.prems(1) by simp
  have wf: "GetNamespace f \<noteq> []" "GetGroup f \<noteq> []" "GetFileName f \<noteq> []"
    using Cons.prems(2) by simp_all
  have coh: "cacheCoherent wc files"
    using Cons.prems(3) by (simp add: cacheCoherent_def)
  have IH: "if \<exists>f \<in> set files. \<exists>r. fileCache wc (GetNamespace f) (GetGroup f) (GetFileName f) = Some r
               \<and> GetVersion f < Version r
         then \<exists>f \<in> set files. \<exists>r. fileCache wc (GetNamespace f) (GetGroup f) (GetFileName f) = Some r
               \<and> GetVersion f < Version r
               \<and> checkQuickResponseClient_files wc c files =
                   Some (NewConfigClientResponse Code_ExecuteSuccess
                     \<lparr>GetNamespace = Namespace r, GetGroup = Group r, GetFileName = FileName r,
                      GetVersion = Version r, GetMd5 = Md5 r, GetName = Name r\<rparr>)
         else checkQuickResponseClient_files wc c files = None"
    using Cons.IH Cons.prems(1,2) coh by simp
  show ?case
  proof (cases "fileCache wc (GetNamespace f) (GetGroup f) (GetFileName f)")
    case None
    then have step: "checkQuickResponseClient_files wc c (f # files) =
        checkQuickResponseClient_files wc c files"
      using wf by (simp add: Let_def)
    from None IH show ?thesis
      unfolding step by (auto split: if_splits)
  next
    case (Some r)
    have ident: "Namespace r = GetNamespace f" "Group r = GetGroup f" "FileName r = GetFileName f"
      using Cons.prems(3) Some by (simp_all add: cacheCoherent_def)
    have sn: "ShouldNotify c r \<longleftrightarrow> GetVersion f < Version r"
      by (rule keyed_ShouldNotify [OF assms(1) f_in ident])
    show ?thesis
    proof (cases "GetVersion f < Version r")
      case True
      then have "checkQuickResponseClient_files wc c (f # files) =
          Some (NewConfigClientResponse Code_ExecuteSuccess
                     \<lparr>GetNamespace = Namespace r, GetGroup = Group r, GetFileName = FileName r,
                      GetVersion = Version r, GetMd5 = Md5 r, GetName = Name r\<rparr>)"
        using wf Some sn ident by (simp add: Let_def)
      with True Some show ?thesis by auto
    next
      case False
      then have step: "checkQuickResponseClient_files wc c (f # files) =
          checkQuickResponseClient_files wc c files"
        using wf Some sn by (simp add: Let_def)
      from False Some IH show ?thesis
        unfolding step by (auto split: if_splits)
    qed
  qed
qed

text \<open>
  Claim C8. Take a context with a well-formed interest set (\<open>keyed\<close>) that lists at
  least one file, every listed file with a namespace, a group and a file name, and a cache
  that answers a lookup with a release of the file asked for. If some listed file has a
  cached release whose version is strictly greater than the version the client declared
  for it, the check returns the success response that carries the namespace, group, file
  name, version, md5 and name of such a release. If no listed file has one, the check
  returns nil.
\<close>

theorem checkQuickResponseClient_fast_path:
  assumes "ListWatchFiles c \<noteq> []"
    and "\<forall>f \<in> set (ListWatchFiles c). GetNamespace f \<noteq> [] \<and> GetGroup f \<noteq> [] \<and> GetFileName f \<noteq> []"
    and "keyed c"
    and "cacheCoherent wc (ListWatchFiles c)"
  shows "if \<exists>f \<in> set (ListWatchFiles c). \<exists>r.
               fileCache wc (GetNamespace f) (GetGroup f) (GetFileName f) = Some r
               \<and> GetVersion f < Version r
         then \<exists>f \<in> set (ListWatchFiles c). \<exists>r.
               fileCache wc (GetNamespace f) (GetGroup f) (GetFileName f) = Some r
               \<and> GetVersion f < Version r
               \<and> checkQuickResponseClient wc c =
                   Some (NewConfigClientResponse Code_ExecuteSuccess
                     \<lparr>GetNamespace = Namespace r, GetGroup = Group r, GetFileName = FileName r,
                      GetVersion = Version r, GetMd5 = Md5 r, GetName = Name r\<rparr>)
         else checkQuickResponseClient wc c = None"
proof -
  have eq: "checkQuickResponseClient wc c =
      checkQuickResponseClient_files wc c (ListWatchFiles c)"
    using assms(1) by (simp add: checkQuickResponseClient_def)
  show ?thesis
    unfolding eq
    by (rule files_fast_path [OF assms(3) subset_refl assms(2) assms(4)])
qed

lemma contextC1_keyed: "keyed contextC1"
  by (simp add: keyed_def contextC1_def BuildKeyForClientConfigFileInfo_def GenFileId_def watchFile_def)

lemma cacheCoherent_C1: "cacheCoherent centerC1 (ListWatchFiles contextC1)"
  by (simp add: cacheCoherent_def contextC1_files centerC1_fileCache cacheF1_def watchFile_def releaseOf_def)

theorem checkQuickResponseClient_fast_path_witness:
  "ListWatchFiles contextC1 \<noteq> []
   \<and> keyed contextC1
   \<and> cacheCoherent centerC1 (ListWatchFiles contextC1)
   \<and> fileCache centerC1 ''default'' ''g1'' ''f1'' = Some (releaseOf ''f1'' 4)
   \<and> GetVersion (watchFile ''default'' ''f1'' 3) < Version (releaseOf ''f1'' 4)
   \<and> checkQuickResponseClient centerC1 contextC1 =
       Some (NewConfigClientResponse Code_ExecuteSuccess
              \<lparr>GetNamespace = ''default'', GetGroup = ''g1'', GetFileName = ''f1'',
               GetVersion = 4, GetMd5 = ''d41d8cd9'', GetName = ''release''\<rparr>)"
proof -
  have wf: "\<forall>f \<in> set (ListWatchFiles contextC1).
      GetNamespace f \<noteq> [] \<and> GetGroup f \<noteq> [] \<and> GetFileName f \<noteq> []"
    by (simp add: contextC1_files watchFile_def)
  have ne: "ListWatchFiles contextC1 \<noteq> []"
    by (simp add: contextC1_files)
  from checkQuickResponseClient_fast_path [OF ne wf contextC1_keyed cacheCoherent_C1]
  show ?thesis
    using ne contextC1_keyed cacheCoherent_C1
    by (simp add: contextC1_files centerC1_fileCache cacheF1_def watchFile_def releaseOf_def
        NewConfigClientResponse_def)
qed

subsection \<open>The expiry sweeper\<close>

lemma RemoveAllWatcher_watchers_shrink:
  assumes "map_of (watchers (RemoveAllWatcher cid wc)) k = Some ws'"
  shows "\<exists>ws. map_of (watchers wc) k = Some ws \<and> set ws' \<subseteq> set ws"
proof (cases "map_of (clients wc) cid")
  case None
  with assms show ?thesis
    by (simp add: RemoveAllWatcher_absent)
next
  case (Some a)
  from assms show ?thesis
    unfolding RemoveAllWatcher_present_watchers [OF Some]
    by (auto split: if_splits)
qed

lemma RemoveAllWatcher_closeCalls_grow:
  "set (closeCalls wc) \<subseteq> set (closeCalls (RemoveAllWatcher cid wc))"
  by (cases "map_of (clients wc) cid")
     (auto simp: RemoveAllWatcher_absent RemoveAllWatcher_present_closeCalls)

lemma handleTimeout_client_objects:
  "objects (handleTimeout_client a wc) =
     (objects wc)(a := Reply (objects wc a) notModifiedResponse)"
  by (simp add: handleTimeout_client_def Let_def RemoveAllWatcher_objects)

lemma handleTimeout_client_clients:
  "clients (handleTimeout_client a wc) = AList.delete (clientId (objects wc a)) (clients wc)"
  by (simp add: handleTimeout_client_def Let_def RemoveAllWatcher_clients ClientID_def
      Reply_clientId)

lemma handleTimeout_client_watchers_shrink:
  assumes "map_of (watchers (handleTimeout_client a wc)) k = Some ws'"
  shows "\<exists>ws. map_of (watchers wc) k = Some ws \<and> set ws' \<subseteq> set ws"
  using RemoveAllWatcher_watchers_shrink [OF assms [unfolded handleTimeout_client_def Let_def]]
  by simp

lemma handleTimeout_client_closeCalls_grow:
  "set (closeCalls wc) \<subseteq> set (closeCalls (handleTimeout_client a wc))"
  using RemoveAllWatcher_closeCalls_grow
    [of "wc\<lparr>objects := (objects wc)(a := Reply (objects wc a) notModifiedResponse)\<rparr>"]
  by (simp add: handleTimeout_client_def Let_def)

text \<open>What one step does for the live client whose context it is given.\<close>

lemma handleTimeout_client_live:
  assumes "map_of (clients wc) cid = Some a" and "clientId (objects wc a) = cid"
  shows "a \<in> set (closeCalls (handleTimeout_client a wc))"
    and "\<forall>file \<in> set (ListWatchFiles (objects wc a)). \<forall>ws.
           map_of (watchers (handleTimeout_client a wc))
             (GenFileId (GetNamespace file) (GetGroup file) (GetFileName file)) = Some ws
           \<longrightarrow> cid \<notin> set ws"
proof -
  let ?wc1 = "wc\<lparr>objects := (objects wc)(a := Reply (objects wc a) notModifiedResponse)\<rparr>"
  have step: "handleTimeout_client a wc = RemoveAllWatcher cid ?wc1"
    using assms(2) by (simp add: handleTimeout_client_def Let_def ClientID_def Reply_clientId)
  have live: "map_of (clients ?wc1) cid = Some a"
    using assms(1) by simp
  show "a \<in> set (closeCalls (handleTimeout_client a wc))"
    unfolding step by (simp add: RemoveAllWatcher_present_closeCalls [OF live])
  show "\<forall>file \<in> set (ListWatchFiles (objects wc a)). \<forall>ws.
           map_of (watchers (handleTimeout_client a wc))
             (GenFileId (GetNamespace file) (GetGroup file) (GetFileName file)) = Some ws
           \<longrightarrow> cid \<notin> set ws"
    unfolding step RemoveAllWatcher_present_watchers [OF live]
    by (auto simp: ListWatchFiles_Reply)
qed

text \<open>What a run of steps keeps.\<close>

lemma fold_handleTimeout_objects:
  "objects (fold handleTimeout_client as wc) b =
     (if b \<in> set as then Reply (objects wc b) notModifiedResponse else objects wc b)"
  by (induction as arbitrary: wc) (auto simp: handleTimeout_client_objects Reply_Reply)

lemma fold_handleTimeout_not_live:
  "map_of (clients wc) cid = None \<Longrightarrow> map_of (clients (fold handleTimeout_client as wc)) cid = None"
  by (induction as arbitrary: wc) (simp_all add: handleTimeout_client_clients delete_conv')

lemma fold_handleTimeout_closeCalls:
  "a \<in> set (closeCalls wc) \<Longrightarrow> a \<in> set (closeCalls (fold handleTimeout_client as wc))"
proof (induction as arbitrary: wc)
  case Nil
  then show ?case by simp
next
  case (Cons b as)
  from Cons.prems handleTimeout_client_closeCalls_grow [of wc b]
  have "a \<in> set (closeCalls (handleTimeout_client b wc))" by blast
  then show ?case by (simp add: Cons.IH)
qed

lemma fold_handleTimeout_bucket:
  assumes "\<forall>ws. map_of (watchers wc) k = Some ws \<longrightarrow> cid \<notin> set ws"
  shows "\<forall>ws. map_of (watchers (fold handleTimeout_client as wc)) k = Some ws \<longrightarrow> cid \<notin> set ws"
  using assms
proof (induction as arbitrary: wc)
  case Nil
  then show ?case by simp
next
  case (Cons b as)
  have "\<forall>ws. map_of (watchers (handleTimeout_client b wc)) k = Some ws \<longrightarrow> cid \<notin> set ws"
    using Cons.prems handleTimeout_client_watchers_shrink [of b wc k] by blast
  from Cons.IH [OF this] show ?case by simp
qed

lemma fold_handleTimeout_live:
  assumes "distinct (map fst xs)"
    and "\<forall>(cid, a) \<in> set xs. map_of (clients wc) cid = Some a \<and> clientId (objects wc a) = cid"
    and "(cid, a) \<in> set xs"
  shows "objects (fold handleTimeout_client (map snd xs) wc) a =
           Reply (objects wc a) notModifiedResponse
       \<and> map_of (clients (fold handleTimeout_client (map snd xs) wc)) cid = None
       \<and> a \<in> set (closeCalls (fold handleTimeout_client (map snd xs) wc))
       \<and> (\<forall>file \<in> set (ListWatchFiles (objects wc a)). \<forall>ws.
             map_of (watchers (fold handleTimeout_client (map snd xs) wc))
               (GenFileId (GetNamespace file) (GetGroup file) (GetFileName file)) = Some ws
             \<longrightarrow> cid \<notin> set ws)"
  using assms
proof (induction xs arbitrary: wc)
  case Nil
  then show ?case by simp
next
  case (Cons x xs)
  obtain c0 a0 where x: "x = (c0, a0)" by (cases x)
  let ?wc1 = "handleTimeout_client a0 wc"
  have head: "map_of (clients wc) c0 = Some a0" "clientId (objects wc a0) = c0"
    using Cons.prems(2) x by simp_all
  have obj: "objects (fold handleTimeout_client (map snd (x # xs)) wc) a =
           Reply (objects wc a) notModifiedResponse"
  proof -
    from Cons.prems(3) have "a \<in> set (map snd (x # xs))" by force
    then show ?thesis by (simp only: fold_handleTimeout_objects if_True)
  qed
  show ?case
  proof (cases "(cid, a) = (c0, a0)")
    case True
    then have eq: "cid = c0" "a = a0" by simp_all
    have gone: "map_of (clients ?wc1) c0 = None"
      using head(2) by (simp add: handleTimeout_client_clients delete_conv')
    note live = handleTimeout_client_live [OF head]
    have bucket: "\<forall>file \<in> set (ListWatchFiles (objects wc a0)). \<forall>ws.
             map_of (watchers (fold handleTimeout_client (map snd xs) ?wc1))
               (GenFileId (GetNamespace file) (GetGroup file) (GetFileName file)) = Some ws
             \<longrightarrow> c0 \<notin> set ws"
    proof
      fix f assume "f \<in> set (ListWatchFiles (objects wc a0))"
      with live(2) have "\<forall>ws. map_of (watchers ?wc1)
               (GenFileId (GetNamespace f) (GetGroup f) (GetFileName f)) = Some ws
             \<longrightarrow> c0 \<notin> set ws"
        by blast
      from fold_handleTimeout_bucket [OF this]
      show "\<forall>ws. map_of (watchers (fold handleTimeout_client (map snd xs) ?wc1))
               (GenFileId (GetNamespace f) (GetGroup f) (GetFileName f)) = Some ws
             \<longrightarrow> c0 \<notin> set ws" .
    qed
    from obj fold_handleTimeout_not_live [OF gone] fold_handleTimeout_closeCalls [OF live(1)]
      bucket
    show ?thesis
      unfolding eq x by simp
  next
    case False
    with Cons.prems(3) x have mem: "(cid, a) \<in> set xs" by auto
    have ne: "cid \<noteq> c0"
      using Cons.prems(1) mem x by (force simp: image_iff)
    have aa: "clientId (objects wc a) = cid"
      using Cons.prems(2) mem by auto
    have dist: "distinct (map fst xs)" using Cons.prems(1) by simp
    have inv1: "\<forall>(cid, a) \<in> set xs.
        map_of (clients ?wc1) cid = Some a \<and> clientId (objects ?wc1 a) = cid"
    proof (clarify, intro conjI)
      fix c b assume cb: "(c, b) \<in> set xs"
      have "c \<noteq> c0" using Cons.prems(1) cb x by (force simp: image_iff)
      moreover have "map_of (clients wc) c = Some b" "clientId (objects wc b) = c"
        using Cons.prems(2) cb by auto
      ultimately show "map_of (clients ?wc1) c = Some b" "clientId (objects ?wc1 b) = c"
        using head(2)
        by (auto simp: handleTimeout_client_clients handleTimeout_client_objects
            Reply_clientId)
    qed
    have files: "ListWatchFiles (objects ?wc1 a) = ListWatchFiles (objects wc a)"
      by (simp add: handleTimeout_client_objects ListWatchFiles_Reply)
    from Cons.IH [OF dist inv1 mem] obj show ?thesis
      unfolding x files by simp
  qed
qed

text \<open>
  Claim C7. In a center whose client index is a map of live registrations (\<open>indexed\<close>):
  a tick on an empty index leaves the center as it is. Otherwise every live registration
  with \<open>ShouldExpire\<close> true at the time of the tick has been replied to with
  \<open>notModifiedResponse\<close>, whose code is \<open>DataNoChange\<close> and which carries no file; so
  an unresolved slot now holds that response. The registration has then been removed by
  \<open>RemoveAllWatcher\<close>: it is not in the client index, its \<open>Close\<close> hook has run and no
  bucket of a file of its interest set holds the client.
\<close>

theorem handleTimeoutTick_expires:
  assumes "indexed wc"
  shows "(SyncMap_Len (clients wc) = 0 \<longrightarrow> handleTimeoutTick tNow wc = wc)
   \<and> (\<forall>cid a. SyncMap_Load (clients wc) cid = Some a \<and> ShouldExpire (objects wc a) tNow \<longrightarrow>
         objects (handleTimeoutTick tNow wc) a = Reply (objects wc a) notModifiedResponse
       \<and> (if once (objects wc a)
          then objects (handleTimeoutTick tNow wc) a = objects wc a
          else sent (finishChan (objects (handleTimeoutTick tNow wc) a)) =
                 sent (finishChan (objects wc a)) @ [notModifiedResponse])
       \<and> SyncMap_Load (clients (handleTimeoutTick tNow wc)) cid = None
       \<and> a \<in> set (closeCalls (handleTimeoutTick tNow wc))
       \<and> (\<forall>file \<in> set (ListWatchFiles (objects wc a)). \<forall>ws.
             SyncMap_Load (watchers (handleTimeoutTick tNow wc))
               (GenFileId (GetNamespace file) (GetGroup file) (GetFileName file)) = Some ws
             \<longrightarrow> cid \<notin> set ws))
   \<and> Code notModifiedResponse = Code_DataNoChange
   \<and> ConfigFile notModifiedResponse = None"
proof (intro conjI allI impI)
  assume "SyncMap_Len (clients wc) = 0"
  then show "handleTimeoutTick tNow wc = wc"
    by (simp add: handleTimeoutTick_def)
next
  show "Code notModifiedResponse = Code_DataNoChange" "ConfigFile notModifiedResponse = None"
    by (simp_all add: notModifiedResponse_def)
next
  fix cid a
  assume live: "SyncMap_Load (clients wc) cid = Some a \<and> ShouldExpire (objects wc a) tNow"
  let ?xs = "filter (\<lambda>(client, watchCtx). ShouldExpire (objects wc watchCtx) tNow) (clients wc)"
  have tick: "handleTimeoutTick tNow wc = fold handleTimeout_client (map snd ?xs) wc"
    by (cases "clients wc") (simp_all add: handleTimeoutTick_def SyncMap_Len_def Let_def)
  have dist: "distinct (map fst (clients wc))"
    using assms by (simp add: indexed_def)
  have dist': "distinct (map fst ?xs)"
    using dist by (rule distinct_map_filter)
  have inv: "\<forall>(cid, a) \<in> set ?xs. map_of (clients wc) cid = Some a \<and> clientId (objects wc a) = cid"
    using assms dist by (auto simp: indexed_def ClientID_def)
  have mem: "(cid, a) \<in> set ?xs"
    using live by (auto simp: SyncMap_Load_def dest: map_of_SomeD)
  note main = fold_handleTimeout_live [OF dist' inv mem, folded tick]
  from main show "objects (handleTimeoutTick tNow wc) a = Reply (objects wc a) notModifiedResponse"
    by simp
  then show "if once (objects wc a)
          then objects (handleTimeoutTick tNow wc) a = objects wc a
          else sent (finishChan (objects (handleTimeoutTick tNow wc) a)) =
                 sent (finishChan (objects wc a)) @ [notModifiedResponse]"
    by (simp add: Reply_def chan_send_def chan_close_def)
  from main show "SyncMap_Load (clients (handleTimeoutTick tNow wc)) cid = None"
    by (simp add: SyncMap_Load_def)
  from main show "a \<in> set (closeCalls (handleTimeoutTick tNow wc))"
    by simp
  from main show "\<forall>file \<in> set (ListWatchFiles (objects wc a)). \<forall>ws.
             SyncMap_Load (watchers (handleTimeoutTick tNow wc))
               (GenFileId (GetNamespace file) (GetGroup file) (GetFileName file)) = Some ws
             \<longrightarrow> cid \<notin> set ws"
    by (simp add: SyncMap_Load_def)
qed

lemma centerC1_indexed: "indexed centerC1"
  by (simp add: indexed_def centerC1_clients centerC1_objects contextC1_def ClientID_def)

lemma handleTimeoutTick_centerC1:
  "handleTimeoutTick 7 centerC1 =
     RemoveAllWatcher ''c1''
       (centerC1\<lparr>objects := (objects centerC1)(0 := Reply contextC1 notModifiedResponse)\<rparr>)"
  by (simp add: handleTimeoutTick_def SyncMap_Len_def centerC1_clients ShouldExpire_def
      handleTimeout_client_def Let_def centerC1_objects ClientID_def Reply_clientId)
     (simp add: contextC1_def)

theorem handleTimeoutTick_expires_witness:
  "indexed centerC1
   \<and> SyncMap_Load (clients centerC1) ''c1'' = Some 0
   \<and> ShouldExpire (objects centerC1 0) 7
   \<and> \<not> once (objects centerC1 0)
   \<and> sent (finishChan (objects (handleTimeoutTick 7 centerC1) 0)) = [notModifiedResponse]
   \<and> SyncMap_Load (clients (handleTimeoutTick 7 centerC1)) ''c1'' = None
   \<and> 0 \<in> set (closeCalls (handleTimeoutTick 7 centerC1))
   \<and> SyncMap_Load (watchers (handleTimeoutTick 7 centerC1)) (GenFileId ''default'' ''g1'' ''f1'')
       = Some []
   \<and> SyncMap_Load (watchers (handleTimeoutTick 7 centerC1)) (GenFileId ''default'' ''g1'' ''f2'')
       = Some []"
proof -
  have live: "SyncMap_Load (clients centerC1) ''c1'' = Some 0"
    by (simp add: SyncMap_Load_def centerC1_clients)
  have expire: "ShouldExpire (objects centerC1 0) 7"
    by (simp add: ShouldExpire_def)
  have fresh: "\<not> once (objects centerC1 0)" "sent (finishChan (objects centerC1 0)) = []"
    by (simp_all add: centerC1_objects contextC1_def)
  have present: "map_of (clients (centerC1\<lparr>objects := (objects centerC1)
      (0 := Reply contextC1 notModifiedResponse)\<rparr>)) ''c1'' = Some 0"
    by (simp add: centerC1_clients)
  have buckets:
    "SyncMap_Load (watchers (handleTimeoutTick 7 centerC1)) (GenFileId ''default'' ''g1'' ''f1'')
       = Some []"
    "SyncMap_Load (watchers (handleTimeoutTick 7 centerC1)) (GenFileId ''default'' ''g1'' ''f2'')
       = Some []"
    unfolding handleTimeoutTick_centerC1 SyncMap_Load_def
      RemoveAllWatcher_present_watchers [OF present]
    by (simp_all add: centerC1_watchers ListWatchFiles_Reply contextC1_files GenFileId_def
        watchFile_def)
  from handleTimeoutTick_expires [OF centerC1_indexed, of 7] live expire
  have "(if once (objects centerC1 0)
          then objects (handleTimeoutTick 7 centerC1) 0 = objects centerC1 0
          else sent (finishChan (objects (handleTimeoutTick 7 centerC1) 0)) =
                 sent (finishChan (objects centerC1 0)) @ [notModifiedResponse])
       \<and> SyncMap_Load (clients (handleTimeoutTick 7 centerC1)) ''c1'' = None
       \<and> 0 \<in> set (closeCalls (handleTimeoutTick 7 centerC1))"
    by blast
  with live expire fresh buckets centerC1_indexed show ?thesis
    by simp
qed

subsection \<open>The notification dispatcher\<close>

lemma notifyToWatchers_client_objects:
  "objects (notifyToWatchers_client e fid rsp cid wc) =
     (case map_of (clients wc) cid of
        None \<Rightarrow> objects wc
      | Some a \<Rightarrow> if ShouldNotify (objects wc a) e
                  then (objects wc)(a := Reply (objects wc a) rsp)
                  else objects wc)"
  by (simp add: notifyToWatchers_client_def SyncMap_Load_def Let_def IsOnce_def
      RemoveAllWatcher_objects split: option.splits)

text \<open>
  In an indexed center the call of \<open>RemoveAllWatcher\<close> at the end of the step finds the
  client already deleted, and returns at once.
\<close>

lemma notifyToWatchers_client_live:
  assumes "map_of (clients wc) cid = Some a" and "clientId (objects wc a) = cid"
  shows "notifyToWatchers_client e fid rsp cid wc =
           (if ShouldNotify (objects wc a) e
            then wc\<lparr>objects := (objects wc)(a := Reply (objects wc a) rsp)\<rparr>
            else wc)\<lparr>clients := AList.delete cid (clients wc)\<rparr>"
proof -
  have gone: "map_of (clients (wc'\<lparr>clients := AList.delete cid (clients wc)\<rparr>)) cid = None" for wc'
    by (simp add: delete_conv')
  show ?thesis
    using assms
    by (simp add: notifyToWatchers_client_def SyncMap_Load_def Let_def IsOnce_def ClientID_def
        SyncMap_Delete_def Reply_clientId RemoveAllWatcher_absent [OF gone])
qed

lemma notifyToWatchers_client_clients:
  assumes "\<forall>c b. map_of (clients wc) c = Some b \<longrightarrow> clientId (objects wc b) = c"
  shows "clients (notifyToWatchers_client e fid rsp cid wc) = AList.delete cid (clients wc)"
proof (cases "map_of (clients wc) cid")
  case None
  then show ?thesis
    by (simp add: notifyToWatchers_client_def SyncMap_Load_def delete_absent
        split: option.splits)
next
  case (Some a)
  with assms have "clientId (objects wc a) = cid" by simp
  from notifyToWatchers_client_live [OF Some this] show ?thesis by simp
qed

lemma notifyToWatchers_client_inv:
  assumes "\<forall>c b. map_of (clients wc) c = Some b \<longrightarrow> clientId (objects wc b) = c"
  shows "\<forall>c b. map_of (clients (notifyToWatchers_client e fid rsp cid wc)) c = Some b
           \<longrightarrow> clientId (objects (notifyToWatchers_client e fid rsp cid wc) b) = c"
  using assms
  by (auto simp: notifyToWatchers_client_clients [OF assms] notifyToWatchers_client_objects
      delete_conv' Reply_clientId split: option.splits if_splits)

lemma fold_notifyToWatchers_client_objects:
  assumes "\<forall>c b. map_of (clients wc) c = Some b \<longrightarrow> clientId (objects wc b) = c"
  shows "objects (fold (notifyToWatchers_client e fid rsp) cs wc) a =
           (if (\<exists>c \<in> set cs. map_of (clients wc) c = Some a) \<and> ShouldNotify (objects wc a) e
            then Reply (objects wc a) rsp
            else objects wc a)"
  using assms
proof (induction cs arbitrary: wc)
  case Nil
  show ?case by simp
next
  case (Cons c cs)
  let ?wc1 = "notifyToWatchers_client e fid rsp c wc"
  note inv = Cons.prems
  note IH = Cons.IH [OF notifyToWatchers_client_inv [OF inv]]
  have cl: "clients ?wc1 = AList.delete c (clients wc)"
    by (rule notifyToWatchers_client_clients [OF inv])
  show ?case
  proof (cases "map_of (clients wc) c")
    case None
    then have "objects ?wc1 = objects wc" "clients ?wc1 = clients wc"
      by (simp_all add: notifyToWatchers_client_objects cl delete_absent)
    with None show ?thesis
      by (simp add: IH)
  next
    case (Some b)
    have owner: "clientId (objects wc b) = c" using inv Some by simp
    have obj: "objects ?wc1 =
        (if ShouldNotify (objects wc b) e then (objects wc)(b := Reply (objects wc b) rsp)
         else objects wc)"
      using Some by (simp add: notifyToWatchers_client_objects)
    show ?thesis
    proof (cases "a = b")
      case True
      have none: "\<not> (\<exists>c' \<in> set cs. map_of (clients ?wc1) c' = Some a)"
      proof
        assume "\<exists>c' \<in> set cs. map_of (clients ?wc1) c' = Some a"
        then obtain c' where c': "map_of (AList.delete c (clients wc)) c' = Some b"
          unfolding cl True by blast
        then have "c' \<noteq> c" by (auto simp: delete_conv')
        moreover from c' have "map_of (clients wc) c' = Some b"
          by (auto simp: delete_conv' split: if_splits)
        ultimately show False using inv owner by auto
      qed
      have here: "\<exists>c' \<in> set (c # cs). map_of (clients wc) c' = Some a"
        using Some True by simp
      have "objects (fold (notifyToWatchers_client e fid rsp) (c # cs) wc) a = objects ?wc1 a"
        using none by (simp add: IH)
      also have "\<dots> = (if ShouldNotify (objects wc a) e then Reply (objects wc a) rsp
                        else objects wc a)"
        unfolding obj True by simp
      finally show ?thesis
        using here by (simp only: if_True simp_thms)
    next
      case False
      have same: "objects ?wc1 a = objects wc a"
        using False by (simp add: obj)
      have iff: "(\<exists>c' \<in> set cs. map_of (clients ?wc1) c' = Some a) \<longleftrightarrow>
          (\<exists>c' \<in> set (c # cs). map_of (clients wc) c' = Some a)"
        unfolding cl
      proof
        assume "\<exists>c' \<in> set cs. map_of (AList.delete c (clients wc)) c' = Some a"
        then obtain c' where c': "c' \<in> set cs" "map_of (AList.delete c (clients wc)) c' = Some a"
          by blast
        from c'(2) have "map_of (clients wc) c' = Some a"
          by (auto simp: delete_conv' split: if_splits)
        with c'(1) show "\<exists>c' \<in> set (c # cs). map_of (clients wc) c' = Some a"
          by auto
      next
        assume "\<exists>c' \<in> set (c # cs). map_of (clients wc) c' = Some a"
        then obtain c' where c': "c' \<in> set (c # cs)" "map_of (clients wc) c' = Some a"
          by blast
        with False Some have ne: "c' \<noteq> c" by auto
        with c'(1) have "c' \<in> set cs" by simp
        moreover from ne c'(2) have "map_of (AList.delete c (clients wc)) c' = Some a"
          by (simp add: delete_conv')
        ultimately show "\<exists>c' \<in> set cs. map_of (AList.delete c (clients wc)) c' = Some a"
          by blast
      qed
      show ?thesis
        by (simp only: fold_simps IH iff same)
    qed
  qed
qed

text \<open>
  Claim C4. In a center whose two indices agree (\<open>consistent\<close>), a publish event \<open>e\<close>
  is answered with one response, built once from the event: a success response that
  carries the identity, the version, the checksum and the name of the event. Every live
  registration whose interest set has an entry for the file of \<open>e\<close> with a declared
  version less than the version of \<open>e\<close> has been replied to with that response, so a slot
  that was unresolved now holds it. Every other live registration, one with no entry for
  the file or with a declared version equal or greater, has its context as before the
  event: it got no reply.
\<close>

theorem notifyToWatchers_delivers:
  assumes "consistent wc"
  shows "(\<forall>cid a. SyncMap_Load (clients wc) cid = Some a \<longrightarrow>
           (if \<exists>watchFile. map_of (watchConfigFiles (objects wc a)) (ActiveKey e) = Some watchFile
                 \<and> GetVersion watchFile < Version e
            then objects (notifyToWatchers e wc) a =
                   Reply (objects wc a)
                     (NewConfigClientResponse Code_ExecuteSuccess (ToSpecNotifyClientRequest e))
               \<and> (if once (objects wc a)
                  then objects (notifyToWatchers e wc) a = objects wc a
                  else sent (finishChan (objects (notifyToWatchers e wc) a)) =
                         sent (finishChan (objects wc a))
                         @ [NewConfigClientResponse Code_ExecuteSuccess (ToSpecNotifyClientRequest e)])
            else objects (notifyToWatchers e wc) a = objects wc a))
      \<and> Code (NewConfigClientResponse Code_ExecuteSuccess (ToSpecNotifyClientRequest e))
          = Code_ExecuteSuccess
      \<and> ConfigFile (NewConfigClientResponse Code_ExecuteSuccess (ToSpecNotifyClientRequest e))
          = Some \<lparr>GetNamespace = Namespace e, GetGroup = Group e, GetFileName = FileName e,
                  GetVersion = Version e, GetMd5 = Md5 e, GetName = Name e\<rparr>"
proof (intro conjI allI impI)
  show "Code (NewConfigClientResponse Code_ExecuteSuccess (ToSpecNotifyClientRequest e))
          = Code_ExecuteSuccess"
    by (simp add: NewConfigClientResponse_def)
  show "ConfigFile (NewConfigClientResponse Code_ExecuteSuccess (ToSpecNotifyClientRequest e))
          = Some \<lparr>GetNamespace = Namespace e, GetGroup = Group e, GetFileName = FileName e,
                  GetVersion = Version e, GetMd5 = Md5 e, GetName = Name e\<rparr>"
    by (simp add: NewConfigClientResponse_def ToSpecNotifyClientRequest_def)
next
  fix cid a
  assume live: "SyncMap_Load (clients wc) cid = Some a"
  let ?rsp = "NewConfigClientResponse Code_ExecuteSuccess (ToSpecNotifyClientRequest e)"
  let ?fid = "GenFileId (Namespace e) (Group e) (FileName e)"
  have dist: "distinct (map fst (clients wc))"
    using assms by (simp add: consistent_def indexed_def)
  have inv: "\<forall>c b. map_of (clients wc) c = Some b \<longrightarrow> clientId (objects wc b) = c"
    using assms by (auto simp: consistent_def indexed_def ClientID_def dest: map_of_SomeD)
  have mem: "(cid, a) \<in> set (clients wc)"
    using live by (auto simp: SyncMap_Load_def dest: map_of_SomeD)
  have sn: "ShouldNotify (objects wc a) e \<longleftrightarrow>
      (\<exists>watchFile. map_of (watchConfigFiles (objects wc a)) (ActiveKey e) = Some watchFile
                 \<and> GetVersion watchFile < Version e)"
    by (auto simp: ShouldNotify_def split: option.splits)
  have obj: "objects (notifyToWatchers e wc) a =
      (if ShouldNotify (objects wc a) e then Reply (objects wc a) ?rsp else objects wc a)"
  proof (cases "ShouldNotify (objects wc a) e")
    case False
    then show ?thesis
      by (simp add: notifyToWatchers_def Let_def SyncMap_Load_def
          fold_notifyToWatchers_client_objects [OF inv] split: option.splits)
  next
    case True
    then obtain wf where wf: "map_of (watchConfigFiles (objects wc a)) (ActiveKey e) = Some wf"
      unfolding sn by blast
    then have "(ActiveKey e, wf) \<in> set (watchConfigFiles (objects wc a))"
      by (rule map_of_SomeD)
    with assms mem have key: "ActiveKey e = BuildKeyForClientConfigFileInfo wf"
      and "\<exists>ws. SyncMap_Load (watchers wc)
                   (GenFileId (GetNamespace wf) (GetGroup wf) (GetFileName wf)) = Some ws
                 \<and> cid \<in> set ws"
      unfolding consistent_def by fast+
    then obtain ws where ws: "map_of (watchers wc) ?fid = Some ws" "cid \<in> set ws"
      by (auto simp: SyncMap_Load_def ActiveKey_def BuildKeyForClientConfigFileInfo_def)
    have "\<exists>c \<in> set ws. map_of (clients wc) c = Some a"
      using ws(2) live by (auto simp: SyncMap_Load_def)
    with True ws(1) show ?thesis
      by (simp add: notifyToWatchers_def Let_def SyncMap_Load_def
          fold_notifyToWatchers_client_objects [OF inv])
  qed
  show "if \<exists>watchFile. map_of (watchConfigFiles (objects wc a)) (ActiveKey e) = Some watchFile
                 \<and> GetVersion watchFile < Version e
            then objects (notifyToWatchers e wc) a = Reply (objects wc a) ?rsp
               \<and> (if once (objects wc a)
                  then objects (notifyToWatchers e wc) a = objects wc a
                  else sent (finishChan (objects (notifyToWatchers e wc) a)) =
                         sent (finishChan (objects wc a)) @ [?rsp])
            else objects (notifyToWatchers e wc) a = objects wc a"
    unfolding sn [symmetric] obj
    by (simp add: Reply_def chan_send_def chan_close_def)
qed

lemma centerC1_consistent: "consistent centerC1"
  by (simp add: consistent_def centerC1_indexed centerC1_clients centerC1_objects
      centerC1_watchers SyncMap_Load_def)
     (simp add: contextC1_def BuildKeyForClientConfigFileInfo_def GenFileId_def watchFile_def)

text \<open>The dispatch of a release of \<open>f1\<close> in the center of the scenario.\<close>

lemma notifyToWatchers_centerC1:
  "notifyToWatchers (releaseOf ''f1'' v) centerC1 =
     (if 3 < v
      then centerC1\<lparr>objects := (objects centerC1)
             (0 := Reply contextC1
                     (NewConfigClientResponse Code_ExecuteSuccess
                        (ToSpecNotifyClientRequest (releaseOf ''f1'' v))))\<rparr>
      else centerC1)\<lparr>clients := []\<rparr>"
proof -
  have bucket: "SyncMap_Load (watchers centerC1)
      (GenFileId (Namespace (releaseOf ''f1'' v)) (Group (releaseOf ''f1'' v))
         (FileName (releaseOf ''f1'' v))) = Some [''c1'']"
    by (simp add: SyncMap_Load_def centerC1_watchers GenFileId_def releaseOf_def)
  have live: "map_of (clients centerC1) ''c1'' = Some 0"
    by (simp add: centerC1_clients)
  have owner: "clientId (objects centerC1 0) = ''c1''"
    by (simp add: centerC1_objects contextC1_def)
  have sn: "ShouldNotify contextC1 (releaseOf ''f1'' v) \<longleftrightarrow> 3 < v"
    by (simp add: contextC1_def ShouldNotify_def ActiveKey_def GenFileId_def
        releaseOf_def watchFile_def)
  show ?thesis
    by (simp add: notifyToWatchers_def Let_def bucket
        notifyToWatchers_client_live [OF live owner] sn centerC1_objects centerC1_clients)
qed

theorem notifyToWatchers_delivers_witness:
  "consistent centerC1
   \<and> SyncMap_Load (clients centerC1) ''c1'' = Some 0
   \<and> map_of (watchConfigFiles (objects centerC1 0)) (ActiveKey (releaseOf ''f1'' 4))
       = Some (watchFile ''default'' ''f1'' 3)
   \<and> GetVersion (watchFile ''default'' ''f1'' 3) < Version (releaseOf ''f1'' 4)
   \<and> \<not> once (objects centerC1 0)
   \<and> sent (finishChan (objects centerC1 0)) = []
   \<and> sent (finishChan (objects (notifyToWatchers (releaseOf ''f1'' 4) centerC1) 0)) =
       [NewConfigClientResponse Code_ExecuteSuccess (ToSpecNotifyClientRequest (releaseOf ''f1'' 4))]
   \<and> Version (releaseOf ''f1'' 3) \<le> GetVersion (watchFile ''default'' ''f1'' 3)
   \<and> objects (notifyToWatchers (releaseOf ''f1'' 3) centerC1) 0 = objects centerC1 0"
proof -
  have live: "SyncMap_Load (clients centerC1) ''c1'' = Some 0"
    by (simp add: SyncMap_Load_def centerC1_clients)
  have entry: "map_of (watchConfigFiles (objects centerC1 0)) (ActiveKey (releaseOf ''f1'' v))
       = Some (watchFile ''default'' ''f1'' 3)" for v
    by (simp add: centerC1_objects contextC1_def ActiveKey_def GenFileId_def releaseOf_def)
  have vers: "GetVersion (watchFile ''default'' ''f1'' 3) < Version (releaseOf ''f1'' 4)"
    "Version (releaseOf ''f1'' 3) \<le> GetVersion (watchFile ''default'' ''f1'' 3)"
    by (simp_all add: watchFile_def releaseOf_def)
  have fresh: "\<not> once (objects centerC1 0)" "sent (finishChan (objects centerC1 0)) = []"
    by (simp_all add: centerC1_objects contextC1_def)
  from notifyToWatchers_delivers [OF centerC1_consistent, of "releaseOf ''f1'' 4"] live
  have "if \<exists>watchFile. map_of (watchConfigFiles (objects centerC1 0)) (ActiveKey (releaseOf ''f1'' 4))
                = Some watchFile \<and> GetVersion watchFile < Version (releaseOf ''f1'' 4)
        then objects (notifyToWatchers (releaseOf ''f1'' 4) centerC1) 0 =
               Reply (objects centerC1 0)
                 (NewConfigClientResponse Code_ExecuteSuccess
                    (ToSpecNotifyClientRequest (releaseOf ''f1'' 4)))
           \<and> (if once (objects centerC1 0)
              then objects (notifyToWatchers (releaseOf ''f1'' 4) centerC1) 0 = objects centerC1 0
              else sent (finishChan (objects (notifyToWatchers (releaseOf ''f1'' 4) centerC1) 0)) =
                     sent (finishChan (objects centerC1 0))
                     @ [NewConfigClientResponse Code_ExecuteSuccess
                          (ToSpecNotifyClientRequest (releaseOf ''f1'' 4))])
        else objects (notifyToWatchers (releaseOf ''f1'' 4) centerC1) 0 = objects centerC1 0"
    by blast
  with entry [of 4] vers(1) fresh
  have newer: "sent (finishChan (objects (notifyToWatchers (releaseOf ''f1'' 4) centerC1) 0)) =
       [NewConfigClientResponse Code_ExecuteSuccess (ToSpecNotifyClientRequest (releaseOf ''f1'' 4))]"
    by (simp add: Reply_def chan_send_def chan_close_def)
  from notifyToWatchers_delivers [OF centerC1_consistent, of "releaseOf ''f1'' 3"] live
  have "if \<exists>watchFile. map_of (watchConfigFiles (objects centerC1 0)) (ActiveKey (releaseOf ''f1'' 3))
                = Some watchFile \<and> GetVersion watchFile < Version (releaseOf ''f1'' 3)
        then objects (notifyToWatchers (releaseOf ''f1'' 3) centerC1) 0 =
               Reply (objects centerC1 0)
                 (NewConfigClientResponse Code_ExecuteSuccess
                    (ToSpecNotifyClientRequest (releaseOf ''f1'' 3)))
           \<and> (if once (objects centerC1 0)
              then objects (notifyToWatchers (releaseOf ''f1'' 3) centerC1) 0 = objects centerC1 0
              else sent (finishChan (objects (notifyToWatchers (releaseOf ''f1'' 3) centerC1) 0)) =
                     sent (finishChan (objects centerC1 0))
                     @ [NewConfigClientResponse Code_ExecuteSuccess
                          (ToSpecNotifyClientRequest (releaseOf ''f1'' 3))])
        else objects (notifyToWatchers (releaseOf ''f1'' 3) centerC1) 0 = objects centerC1 0"
    by blast
  with entry [of 3] vers(2)
  have same: "objects (notifyToWatchers (releaseOf ''f1'' 3) centerC1) 0 = objects centerC1 0"
    by (simp add: watchFile_def releaseOf_def)
  from centerC1_consistent live entry [of 4] vers fresh newer same show ?thesis
    by simp
qed

subsection \<open>What the dispatcher leaves behind\<close>

lemma worker_no_clients:
  "clients wc = [] \<Longrightarrow> startHandleTimeoutRequestWorker evs wc = wc"
  by (induction evs wc rule: startHandleTimeoutRequestWorker.induct)
     (simp_all add: handleTimeoutTick_def SyncMap_Len_def)

text \<open>
  Claim C2 does not hold of the code. Client \<open>c1\<close> has registered for \<open>f1\<close> declaring
  version 3, and a publish event for \<open>f1\<close> arrives with version 3. The dispatcher sends
  no reply, since the version is not newer, and yet deletes the single-shot registration
  from the client index: the removal stands after the test of \<open>ShouldNotify\<close>, not under
  it. The slot is unresolved, and since the sweeper walks the client index only, the ticks
  that follow leave it unresolved.
\<close>

theorem notifyToWatchers_removes_undelivered:
  "SyncMap_Load (clients centerC1) ''c1'' = Some 0
   \<and> \<not> ShouldNotify (objects centerC1 0) (releaseOf ''f1'' 3)
   \<and> SyncMap_Load (clients (notifyToWatchers (releaseOf ''f1'' 3) centerC1)) ''c1'' = None
   \<and> \<not> once (objects (notifyToWatchers (releaseOf ''f1'' 3) centerC1) 0)
   \<and> finishChan (objects (notifyToWatchers (releaseOf ''f1'' 3) centerC1) 0)
       = \<lparr>sent = [], closed = False\<rparr>
   \<and> finishChan (objects (startHandleTimeoutRequestWorker [Tick 1, Tick 2, Tick 3]
                            (notifyToWatchers (releaseOf ''f1'' 3) centerC1)) 0)
       = \<lparr>sent = [], closed = False\<rparr>"
proof -
  have empty: "clients (notifyToWatchers (releaseOf ''f1'' 3) centerC1) = []"
    by (simp add: notifyToWatchers_centerC1)
  show ?thesis
    unfolding worker_no_clients [OF empty]
    by (simp add: notifyToWatchers_centerC1 SyncMap_Load_def centerC1_clients centerC1_objects)
       (simp add: contextC1_def ShouldNotify_def ActiveKey_def GenFileId_def releaseOf_def
          watchFile_def)
qed

text \<open>
  Claim C3 does not hold of the code. Client \<open>c1\<close> has registered for \<open>f1\<close> and \<open>f2\<close>,
  and a publish event for \<open>f1\<close> arrives with a newer version. The dispatcher replies,
  deletes the client from the client index and then calls \<open>RemoveAllWatcher\<close>, which
  finds no client and returns before it reaches the buckets: the client stays in the
  buckets of \<open>f1\<close> and \<open>f2\<close>, and the \<open>Close\<close> hook has not run. \<open>RemoveWatcher\<close> with
  no files, or with \<open>f1\<close> only, also deletes the client and leaves it in a bucket.
\<close>

theorem notifyToWatchers_leaves_buckets:
  "SyncMap_Load (clients (notifyToWatchers (releaseOf ''f1'' 4) centerC1)) ''c1'' = None
   \<and> SyncMap_Load (watchers (notifyToWatchers (releaseOf ''f1'' 4) centerC1))
        (GenFileId ''default'' ''g1'' ''f1'') = Some [''c1'']
   \<and> SyncMap_Load (watchers (notifyToWatchers (releaseOf ''f1'' 4) centerC1))
        (GenFileId ''default'' ''g1'' ''f2'') = Some [''c1'']
   \<and> closeCalls (notifyToWatchers (releaseOf ''f1'' 4) centerC1) = []
   \<and> SyncMap_Load (clients (RemoveWatcher ''c1'' [] centerC1)) ''c1'' = None
   \<and> SyncMap_Load (watchers (RemoveWatcher ''c1'' [] centerC1))
        (GenFileId ''default'' ''g1'' ''f1'') = Some [''c1'']
   \<and> SyncMap_Load (clients (RemoveWatcher ''c1'' [watchFile ''default'' ''f1'' 3] centerC1)) ''c1''
        = None
   \<and> SyncMap_Load (watchers (RemoveWatcher ''c1'' [watchFile ''default'' ''f1'' 3] centerC1))
        (GenFileId ''default'' ''g1'' ''f2'') = Some [''c1'']"
  unfolding notifyToWatchers_centerC1
  by (simp add: SyncMap_Load_def centerC1_clients centerC1_watchers
      centerC1_closeCalls RemoveWatcher_def SyncMap_Delete_def GenFileId_def
      watchFile_def RemoveWatcher_file_def SyncMap_Store_def SyncSet_Remove_def Let_def)

lemma notifyToWatchers_no_clients:
  assumes "clients wc = []"
  shows "objects (notifyToWatchers e wc) = objects wc"
proof -
  have "objects (fold (notifyToWatchers_client e fid rsp) cs wc) a = objects wc a"
    for fid rsp cs a
    by (simp add: fold_notifyToWatchers_client_objects assms)
  then show ?thesis
    by (auto simp: notifyToWatchers_def Let_def split: option.splits)
qed

text \<open>
  Claim C10 does not hold of the code. The first half does: the registration of \<open>c1\<close> is
  single-shot and \<open>ShouldExpire\<close> is true of it at every time. But it is not resolved by
  whichever of a matching event and the sweeper's pass comes first. A publish event for
  \<open>f1\<close> with version 3, which does not match since \<open>c1\<close> declared version 3, comes
  before the first tick, and the dispatcher deletes the registration from the client
  index without a reply. From then on neither path resolves it: whatever events the worker
  takes afterwards the slot stays empty and open, and so it does when a matching event,
  version 5 of \<open>f1\<close>, is dispatched after them.
\<close>

theorem ShouldExpire_not_resolved:
  "SyncMap_Load (clients centerC1) ''c1'' = Some 0
   \<and> IsOnce (objects centerC1 0)
   \<and> ShouldExpire (objects centerC1 0) tNow
   \<and> \<not> ShouldNotify (objects centerC1 0) (releaseOf ''f1'' 3)
   \<and> ShouldNotify (objects centerC1 0) (releaseOf ''f1'' 5)
   \<and> \<not> once (objects (startHandleTimeoutRequestWorker evs
                           (notifyToWatchers (releaseOf ''f1'' 3) centerC1)) 0)
   \<and> finishChan (objects (startHandleTimeoutRequestWorker evs
                            (notifyToWatchers (releaseOf ''f1'' 3) centerC1)) 0)
       = \<lparr>sent = [], closed = False\<rparr>
   \<and> \<not> once (objects (notifyToWatchers (releaseOf ''f1'' 5)
                           (startHandleTimeoutRequestWorker evs
                              (notifyToWatchers (releaseOf ''f1'' 3) centerC1))) 0)
   \<and> finishChan (objects (notifyToWatchers (releaseOf ''f1'' 5)
                            (startHandleTimeoutRequestWorker evs
                               (notifyToWatchers (releaseOf ''f1'' 3) centerC1))) 0)
       = \<lparr>sent = [], closed = False\<rparr>"
proof -
  have empty: "clients (notifyToWatchers (releaseOf ''f1'' 3) centerC1) = []"
    by (simp add: notifyToWatchers_centerC1)
  have dropped: "objects (notifyToWatchers (releaseOf ''f1'' 3) centerC1) 0 = contextC1"
    by (simp add: notifyToWatchers_centerC1 centerC1_objects)
  have sn: "\<not> ShouldNotify contextC1 (releaseOf ''f1'' 3)"
    "ShouldNotify contextC1 (releaseOf ''f1'' 5)"
    by (simp_all add: contextC1_def ShouldNotify_def ActiveKey_def GenFileId_def releaseOf_def
        watchFile_def)
  have slot: "\<not> once contextC1" "finishChan contextC1 = \<lparr>sent = [], closed = False\<rparr>"
    by (simp_all add: contextC1_def)
  show ?thesis
    unfolding worker_no_clients [OF empty] notifyToWatchers_no_clients [OF empty] dropped
    using sn slot
    by (simp add: SyncMap_Load_def centerC1_clients centerC1_objects IsOnce_def ShouldExpire_def)
qed

subsection \<open>The operations keep the center well-formed\<close>

text \<open>
  A frame rule: the center stays well-formed when the client index shrinks or stays, the
  contexts of the clients that remain keep their identity and interest set, these clients
  stay in the buckets they were in, and no address is given back.
\<close>

lemma wellformed_frame:
  assumes wf: "wellformed wc"
    and sub: "set (clients wc') \<subseteq> set (clients wc)"
    and dist: "distinct (map fst (clients wc'))"
    and obj: "\<forall>(cid, a) \<in> set (clients wc').
                clientId (objects wc' a) = clientId (objects wc a)
                \<and> watchConfigFiles (objects wc' a) = watchConfigFiles (objects wc a)"
    and buckets: "\<forall>(cid, a) \<in> set (clients wc'). \<forall>k ws.
                map_of (watchers wc) k = Some ws \<and> cid \<in> set ws
                \<longrightarrow> (\<exists>ws'. map_of (watchers wc') k = Some ws' \<and> cid \<in> set ws')"
    and fresh: "fresh wc \<le> fresh wc'"
  shows "wellformed wc'"
  unfolding wellformed_def consistent_def indexed_def
proof (intro conjI ballI)
  show "distinct (map fst (clients wc'))" by (rule dist)
next
  fix x assume x: "x \<in> set (clients wc')"
  obtain cid a where xa: "x = (cid, a)" by (cases x)
  from x sub have old: "(cid, a) \<in> set (clients wc)" unfolding xa by blast
  from obj x have same: "clientId (objects wc' a) = clientId (objects wc a)"
    "watchConfigFiles (objects wc' a) = watchConfigFiles (objects wc a)"
    unfolding xa by auto
  from wf old have id: "clientId (objects wc a) = cid" and below: "a < fresh wc"
    unfolding wellformed_def consistent_def indexed_def ClientID_def by auto
  show "case x of (cid, a) \<Rightarrow> ClientID (objects wc' a) = cid"
    unfolding xa by (simp add: ClientID_def same id)
  show "case x of (cid, a) \<Rightarrow> a < fresh wc'"
    unfolding xa using below fresh by simp
  show "case x of (cid, a) \<Rightarrow>
          \<forall>(k, f) \<in> set (watchConfigFiles (objects wc' a)).
             k = BuildKeyForClientConfigFileInfo f
             \<and> (\<exists>ws. SyncMap_Load (watchers wc')
                       (GenFileId (GetNamespace f) (GetGroup f) (GetFileName f)) = Some ws
                     \<and> cid \<in> set ws)"
    unfolding xa prod.case same
  proof (intro ballI)
    fix y assume y: "y \<in> set (watchConfigFiles (objects wc a))"
    obtain k f where yk: "y = (k, f)" by (cases y)
    from wf old y have key: "k = BuildKeyForClientConfigFileInfo f"
      and "\<exists>ws. map_of (watchers wc)
                   (GenFileId (GetNamespace f) (GetGroup f) (GetFileName f)) = Some ws
                 \<and> cid \<in> set ws"
      unfolding wellformed_def consistent_def yk SyncMap_Load_def by fast+
    with buckets x have "\<exists>ws'. map_of (watchers wc')
                   (GenFileId (GetNamespace f) (GetGroup f) (GetFileName f)) = Some ws'
                 \<and> cid \<in> set ws'"
      unfolding xa by fast
    with key show "case y of (k, f) \<Rightarrow>
             k = BuildKeyForClientConfigFileInfo f
             \<and> (\<exists>ws. SyncMap_Load (watchers wc')
                       (GenFileId (GetNamespace f) (GetGroup f) (GetFileName f)) = Some ws
                     \<and> cid \<in> set ws)"
      unfolding yk SyncMap_Load_def by simp
  qed
qed

lemma wellformed_NewWatchCenter: "wellformed (NewWatchCenter cache)"
  by (simp add: wellformed_def consistent_def indexed_def NewWatchCenter_def)

lemma set_delete_subset: "set (AList.delete k al) \<subseteq> set al"
  by (auto simp: AList.delete_eq)

lemma set_delete_key: "(c, a) \<in> set (AList.delete k al) \<Longrightarrow> c \<noteq> k"
  by (auto simp: AList.delete_eq)

lemma wellformed_distinct: "wellformed wc \<Longrightarrow> distinct (map fst (clients wc))"
  by (simp add: wellformed_def consistent_def indexed_def)

lemma RemoveAllWatcher_fresh: "fresh (RemoveAllWatcher cid wc) = fresh wc"
  by (simp add: RemoveAllWatcher_def SyncMap_Delete_def fold_RemoveWatcher_file_fields
      split: option.splits)

lemma RemoveAllWatcher_keeps_others:
  assumes "map_of (watchers wc) k = Some ws" and "c \<in> set ws" and "c \<noteq> cid"
  shows "\<exists>ws'. map_of (watchers (RemoveAllWatcher cid wc)) k = Some ws' \<and> c \<in> set ws'"
proof (cases "map_of (clients wc) cid")
  case None
  with assms show ?thesis by (simp add: RemoveAllWatcher_absent)
next
  case (Some a)
  from assms show ?thesis
    unfolding RemoveAllWatcher_present_watchers [OF Some] by simp
qed

lemma wellformed_RemoveAllWatcher:
  assumes "wellformed wc"
  shows "wellformed (RemoveAllWatcher cid wc)"
proof (rule wellformed_frame [OF assms])
  show "set (clients (RemoveAllWatcher cid wc)) \<subseteq> set (clients wc)"
    by (simp add: RemoveAllWatcher_clients set_delete_subset)
  show "distinct (map fst (clients (RemoveAllWatcher cid wc)))"
    by (simp add: RemoveAllWatcher_clients distinct_delete wellformed_distinct [OF assms])
  show "\<forall>(c, a) \<in> set (clients (RemoveAllWatcher cid wc)).
          clientId (objects (RemoveAllWatcher cid wc) a) = clientId (objects wc a)
          \<and> watchConfigFiles (objects (RemoveAllWatcher cid wc) a) = watchConfigFiles (objects wc a)"
    by (simp add: RemoveAllWatcher_objects)
  show "\<forall>(c, a) \<in> set (clients (RemoveAllWatcher cid wc)). \<forall>k ws.
          map_of (watchers wc) k = Some ws \<and> c \<in> set ws
          \<longrightarrow> (\<exists>ws'. map_of (watchers (RemoveAllWatcher cid wc)) k = Some ws' \<and> c \<in> set ws')"
    unfolding RemoveAllWatcher_clients
    by (auto dest!: set_delete_key intro: RemoveAllWatcher_keeps_others)
  show "fresh wc \<le> fresh (RemoveAllWatcher cid wc)"
    by (simp add: RemoveAllWatcher_fresh)
qed

lemma RemoveWatcher_fold:
  "RemoveWatcher cid files wc =
     fold (RemoveWatcher_file cid) files
       (case map_of (clients wc) cid of
          None \<Rightarrow> wc
        | Some oldVal \<Rightarrow> wc\<lparr>clients := AList.delete cid (clients wc),
                              closeCalls := closeCalls wc @ [oldVal]\<rparr>)"
  by (cases files) (simp_all add: RemoveWatcher_def SyncMap_Delete_def Let_def)

lemma RemoveWatcher_fields:
  "clients (RemoveWatcher cid files wc) = AList.delete cid (clients wc)"
  "objects (RemoveWatcher cid files wc) = objects wc"
  "fresh (RemoveWatcher cid files wc) = fresh wc"
  by (simp_all add: RemoveWatcher_fold fold_RemoveWatcher_file_fields
      delete_absent split: option.splits)

lemma RemoveWatcher_watchers:
  "map_of (watchers (RemoveWatcher cid files wc)) k =
     (if k \<in> (\<lambda>file. GenFileId (GetNamespace file) (GetGroup file) (GetFileName file)) ` set files
      then map_option (removeAll cid) (map_of (watchers wc) k)
      else map_of (watchers wc) k)"
  unfolding RemoveWatcher_fold fold_RemoveWatcher_file_watchers
  by (simp split: option.splits)

lemma wellformed_RemoveWatcher:
  assumes "wellformed wc"
  shows "wellformed (RemoveWatcher cid files wc)"
proof (rule wellformed_frame [OF assms])
  show "set (clients (RemoveWatcher cid files wc)) \<subseteq> set (clients wc)"
    by (simp add: RemoveWatcher_fields set_delete_subset)
  show "distinct (map fst (clients (RemoveWatcher cid files wc)))"
    by (simp add: RemoveWatcher_fields distinct_delete wellformed_distinct [OF assms])
  show "\<forall>(c, a) \<in> set (clients (RemoveWatcher cid files wc)).
          clientId (objects (RemoveWatcher cid files wc) a) = clientId (objects wc a)
          \<and> watchConfigFiles (objects (RemoveWatcher cid files wc) a) = watchConfigFiles (objects wc a)"
    by (simp add: RemoveWatcher_fields)
  show "\<forall>(c, a) \<in> set (clients (RemoveWatcher cid files wc)). \<forall>k ws.
          map_of (watchers wc) k = Some ws \<and> c \<in> set ws
          \<longrightarrow> (\<exists>ws'. map_of (watchers (RemoveWatcher cid files wc)) k = Some ws' \<and> c \<in> set ws')"
    unfolding RemoveWatcher_fields RemoveWatcher_watchers
    by (auto dest!: set_delete_key)
  show "fresh wc \<le> fresh (RemoveWatcher cid files wc)"
    by (simp add: RemoveWatcher_fields)
qed

lemma wellformed_Reply:
  assumes "wellformed wc"
  shows "wellformed (wc\<lparr>objects := (objects wc)(a := Reply (objects wc a) rsp)\<rparr>)"
  by (rule wellformed_frame [OF assms])
     (auto simp: wellformed_distinct [OF assms] Reply_clientId Reply_watchConfigFiles)

lemma wellformed_delete:
  assumes "wellformed wc"
  shows "wellformed (wc\<lparr>clients := AList.delete cid (clients wc)\<rparr>)"
  by (rule wellformed_frame [OF assms])
     (auto simp: distinct_delete wellformed_distinct [OF assms] dest: set_delete_subset [THEN subsetD])

lemma wellformed_notifyToWatchers_client:
  assumes "wellformed wc"
  shows "wellformed (notifyToWatchers_client e fid rsp cid wc)"
proof (cases "map_of (clients wc) cid")
  case None
  then have absent: "\<And>a. (cid, a) \<notin> set (clients wc)"
    by (auto simp: map_of_eq_None_iff image_iff)
  show ?thesis
  proof (cases "map_of (watchers wc) fid")
    case nb: None
    with None assms show ?thesis
      by (simp add: notifyToWatchers_client_def SyncMap_Load_def)
  next
    case (Some ws)
    have step: "notifyToWatchers_client e fid rsp cid wc =
        wc\<lparr>watchers := AList.update fid (removeAll cid ws) (watchers wc)\<rparr>"
      using None Some
      by (simp add: notifyToWatchers_client_def SyncMap_Load_def SyncMap_Store_def
          SyncSet_Remove_def)
    show ?thesis
      unfolding step
      by (rule wellformed_frame [OF assms])
         (use absent in \<open>auto simp: wellformed_distinct [OF assms] update_conv' Some\<close>)
  qed
next
  case (Some a)
  let ?wc1 = "if ShouldNotify (objects wc a) e
              then wc\<lparr>objects := (objects wc)(a := Reply (objects wc a) rsp)\<rparr> else wc"
  have wf1: "wellformed ?wc1"
    using assms by (simp add: wellformed_Reply)
  have step: "notifyToWatchers_client e fid rsp cid wc =
      RemoveAllWatcher (ClientID (objects ?wc1 a))
        (?wc1\<lparr>clients := AList.delete cid (clients ?wc1)\<rparr>)"
    using Some
    by (simp add: notifyToWatchers_client_def SyncMap_Load_def Let_def IsOnce_def
        SyncMap_Delete_def)
  show ?thesis
    unfolding step
    by (intro wellformed_RemoveAllWatcher wellformed_delete wf1)
qed

lemma wellformed_notifyToWatchers:
  assumes "wellformed wc"
  shows "wellformed (notifyToWatchers e wc)"
proof -
  have "wellformed (fold (notifyToWatchers_client e fid rsp) cs wc)" for fid rsp cs
    using assms
    by (induction cs arbitrary: wc) (simp_all add: wellformed_notifyToWatchers_client)
  with assms show ?thesis
    by (simp add: notifyToWatchers_def Let_def split: option.splits)
qed

lemma wellformed_handleTimeout_client:
  assumes "wellformed wc"
  shows "wellformed (handleTimeout_client a wc)"
  unfolding handleTimeout_client_def Let_def
  by (intro wellformed_RemoveAllWatcher wellformed_Reply assms)

lemma wellformed_handleTimeoutTick:
  assumes "wellformed wc"
  shows "wellformed (handleTimeoutTick tNow wc)"
proof -
  have "wellformed (fold handleTimeout_client as wc)" for as
    using assms
    by (induction as arbitrary: wc) (simp_all add: wellformed_handleTimeout_client)
  with assms show ?thesis
    by (simp add: handleTimeoutTick_def Let_def)
qed

lemma wellformed_worker:
  "wellformed wc \<Longrightarrow> wellformed (startHandleTimeoutRequestWorker evs wc)"
  by (induction evs wc rule: startHandleTimeoutRequestWorker.induct)
     (simp_all add: wellformed_handleTimeoutTick)

lemma AddWatcher_file_fields:
  "clients (AddWatcher_file cid a file wc) = clients wc"
  "fresh (AddWatcher_file cid a file wc) = fresh wc"
  "objects (AddWatcher_file cid a file wc) = (objects wc)(a := AppendInterest (objects wc a) file)"
  by (simp_all add: AddWatcher_file_def Let_def split: prod.splits)

lemma AddWatcher_file_watchers:
  "map_of (watchers (AddWatcher_file cid a file wc)) k =
     (if k = GenFileId (GetNamespace file) (GetGroup file) (GetFileName file)
      then Some (SyncSet_Add (case map_of (watchers wc) k of None \<Rightarrow> [] | Some s \<Rightarrow> s) cid)
      else map_of (watchers wc) k)"
  by (auto simp: AddWatcher_file_def Let_def SyncMap_ComputeIfAbsent_def SyncMap_Store_def
      update_conv' map_add_def split: prod.splits option.splits)

lemma AddWatcher_file_keeps:
  assumes "map_of (watchers wc) k = Some ws" and "c \<in> set ws"
  shows "\<exists>ws'. map_of (watchers (AddWatcher_file cid a file wc)) k = Some ws' \<and> c \<in> set ws'"
  using assms by (auto simp: AddWatcher_file_watchers SyncSet_Add_def)

lemma AddWatcher_file_joins:
  "\<exists>ws'. map_of (watchers (AddWatcher_file cid a file wc))
            (GenFileId (GetNamespace file) (GetGroup file) (GetFileName file)) = Some ws'
         \<and> cid \<in> set ws'"
  by (simp add: AddWatcher_file_watchers SyncSet_Add_def)

lemma AppendInterest_clientId: "clientId (AppendInterest c item) = clientId c"
  by (simp add: AppendInterest_def Let_def)

lemma wellformed_AddWatcher_file:
  assumes wf: "wellformed wc" and live: "(cid, a) \<in> set (clients wc)"
  shows "wellformed (AddWatcher_file cid a file wc)"
  unfolding wellformed_def consistent_def indexed_def AddWatcher_file_fields
proof (intro conjI ballI)
  show "distinct (map fst (clients wc))" by (rule wellformed_distinct [OF wf])
next
  fix x assume x: "x \<in> set (clients wc)"
  obtain c' a' where xa: "x = (c', a')" by (cases x)
  from wf x have id: "clientId (objects wc a') = c'" and below: "a' < fresh wc"
    unfolding wellformed_def consistent_def indexed_def ClientID_def xa by auto
  from wf live have id0: "clientId (objects wc a) = cid"
    unfolding wellformed_def consistent_def indexed_def ClientID_def by auto
  have same: "a' = a \<Longrightarrow> c' = cid" using id id0 by simp
  show "case x of (cid, a') \<Rightarrow>
          ClientID (((objects wc)(a := AppendInterest (objects wc a) file)) a') = cid"
    unfolding xa using id by (auto simp: ClientID_def AppendInterest_clientId)
  show "case x of (cid, a) \<Rightarrow> a < fresh wc"
    unfolding xa using below by simp
  have old: "\<And>k f. (k, f) \<in> set (watchConfigFiles (objects wc a')) \<Longrightarrow>
      k = BuildKeyForClientConfigFileInfo f
      \<and> (\<exists>ws. map_of (watchers wc)
                (GenFileId (GetNamespace f) (GetGroup f) (GetFileName f)) = Some ws
              \<and> c' \<in> set ws)"
    using wf x unfolding wellformed_def consistent_def xa SyncMap_Load_def by fast
  show "case x of (cid', a') \<Rightarrow>
          \<forall>(k, f) \<in> set (watchConfigFiles
                            (((objects wc)(a := AppendInterest (objects wc a) file)) a')).
             k = BuildKeyForClientConfigFileInfo f
             \<and> (\<exists>ws. SyncMap_Load (watchers (AddWatcher_file cid a file wc))
                       (GenFileId (GetNamespace f) (GetGroup f) (GetFileName f)) = Some ws
                     \<and> cid' \<in> set ws)"
    unfolding xa prod.case SyncMap_Load_def
  proof (intro ballI)
    fix y
    assume y: "y \<in> set (watchConfigFiles
                          (((objects wc)(a := AppendInterest (objects wc a) file)) a'))"
    obtain k f where yk: "y = (k, f)" by (cases y)
    have "y = (BuildKeyForClientConfigFileInfo file, file) \<and> a' = a
          \<or> y \<in> set (watchConfigFiles (objects wc a'))"
      using y by (auto simp: AppendInterest_def Let_def dest!: set_update_cases split: if_splits)
    then show "case y of (k, f) \<Rightarrow>
            k = BuildKeyForClientConfigFileInfo f
            \<and> (\<exists>ws. map_of (watchers (AddWatcher_file cid a file wc))
                      (GenFileId (GetNamespace f) (GetGroup f) (GetFileName f)) = Some ws
                    \<and> c' \<in> set ws)"
    proof
      assume "y = (BuildKeyForClientConfigFileInfo file, file) \<and> a' = a"
      with same AddWatcher_file_joins [of cid a "file" wc] show ?thesis by auto
    next
      assume "y \<in> set (watchConfigFiles (objects wc a'))"
      from old [OF this [unfolded yk]] AddWatcher_file_keeps [of wc _ _ c' cid a "file"]
      show ?thesis unfolding yk by auto
    qed
  qed
qed

lemma wellformed_fold_AddWatcher_file:
  assumes "wellformed wc" and "(cid, a) \<in> set (clients wc)"
  shows "wellformed (fold (AddWatcher_file cid a) files wc)"
  using assms
  by (induction files arbitrary: wc)
     (simp_all add: wellformed_AddWatcher_file AddWatcher_file_fields)

text \<open>
  With a factory as expected, \<open>AddWatcher\<close> keeps the center well-formed; so does every
  other operation. Every center that the operations build from a new one is well-formed,
  hence \<open>consistent\<close> and \<open>indexed\<close>.
\<close>

lemma wellformed_AddWatcher:
  assumes wf: "wellformed wc" and good: "goodFactory factory"
  shows "wellformed (snd (AddWatcher cid files factory wc))"
proof (cases "map_of (clients wc) cid")
  case (Some a)
  then have "(cid, a) \<in> set (clients wc)" by (rule map_of_SomeD)
  from wellformed_fold_AddWatcher_file [OF wf this] Some show ?thesis
    by (simp add: AddWatcher_def SyncMap_ComputeIfAbsent_def SyncMap_Load_def)
next
  case None
  let ?a = "fresh wc"
  let ?wc1 = "wc\<lparr>clients := clients wc @ [(cid, ?a)],
                  objects := (objects wc)(?a := factory cid), fresh := Suc ?a\<rparr>"
  have new: "cid \<notin> fst ` set (clients wc)"
    using None by (simp add: map_of_eq_None_iff)
  have below: "\<And>c a. (c, a) \<in> set (clients wc) \<Longrightarrow> a < fresh wc"
    using wf unfolding wellformed_def by auto
  have old: "\<And>c a. (c, a) \<in> set (clients wc) \<Longrightarrow>
      ClientID (objects wc a) = c
      \<and> (\<forall>(k, f) \<in> set (watchConfigFiles (objects wc a)).
            k = BuildKeyForClientConfigFileInfo f
            \<and> (\<exists>ws. SyncMap_Load (watchers wc)
                      (GenFileId (GetNamespace f) (GetGroup f) (GetFileName f)) = Some ws
                    \<and> c \<in> set ws))"
    using wf unfolding wellformed_def consistent_def indexed_def by fast
  have wf1: "wellformed ?wc1"
    unfolding wellformed_def consistent_def indexed_def
  proof (intro conjI ballI)
    show "distinct (map fst (clients ?wc1))"
      using new wellformed_distinct [OF wf] by simp
  next
    fix x assume x: "x \<in> set (clients ?wc1)"
    obtain c a where xa: "x = (c, a)" by (cases x)
    from x have cases: "(c, a) \<in> set (clients wc) \<or> (c = cid \<and> a = ?a)"
      unfolding xa by auto
    show "case x of (cid, a) \<Rightarrow> ClientID (objects ?wc1 a) = cid"
      unfolding xa using cases good below old by (auto simp: goodFactory_def)
    show "case x of (cid, a) \<Rightarrow> a < fresh ?wc1"
      unfolding xa using cases below by (auto simp: less_Suc_eq)
    show "case x of (cid, a) \<Rightarrow>
            \<forall>(k, f) \<in> set (watchConfigFiles (objects ?wc1 a)).
               k = BuildKeyForClientConfigFileInfo f
               \<and> (\<exists>ws. SyncMap_Load (watchers ?wc1)
                         (GenFileId (GetNamespace f) (GetGroup f) (GetFileName f)) = Some ws
                       \<and> cid \<in> set ws)"
    proof -
      have "\<forall>(k, f) \<in> set (watchConfigFiles (objects ?wc1 a)).
               k = BuildKeyForClientConfigFileInfo f
               \<and> (\<exists>ws. SyncMap_Load (watchers ?wc1)
                         (GenFileId (GetNamespace f) (GetGroup f) (GetFileName f)) = Some ws
                       \<and> c \<in> set ws)"
        using cases
      proof
        assume m: "(c, a) \<in> set (clients wc)"
        from below [OF m] have "objects ?wc1 a = objects wc a" by simp
        with old [OF m] show ?thesis by simp
      next
        assume "c = cid \<and> a = ?a"
        with good show ?thesis by (simp add: goodFactory_def)
      qed
      then show ?thesis unfolding xa by simp
    qed
  qed
  have "(cid, ?a) \<in> set (clients ?wc1)" by simp
  from wellformed_fold_AddWatcher_file [OF wf1 this] None show ?thesis
    by (simp add: AddWatcher_def SyncMap_ComputeIfAbsent_def SyncMap_Load_def)
qed

lemma goodFactory_longPollFactory: "goodFactory (longPollFactory deadline)"
  by (simp add: goodFactory_def longPollFactory_def ClientID_def)

lemma wellformed_consistent: "wellformed wc \<Longrightarrow> consistent wc"
  by (simp add: wellformed_def)

lemma consistent_indexed: "consistent wc \<Longrightarrow> indexed wc"
  by (simp add: consistent_def)

lemma centerC1_wellformed: "wellformed centerC1"
  unfolding centerC1_def
  by (intro wellformed_AddWatcher wellformed_NewWatchCenter goodFactory_longPollFactory)

end
